theory Spec2Isabelle
  imports Main "HOL-Library.AList" "HOL-Library.Multiset"
begin

section \<open>Python values\<close>

text \<open>
  The client of \<^verbatim>\<open>backend/llamacpp.py\<close> handles JSON-like Python values only: the
  message payload it sends, the body \<^verbatim>\<open>response.json()\<close> returns, and the result
  dictionaries it builds. \<open>PNone\<close> is Python's \<^verbatim>\<open>None\<close> (JSON \<^verbatim>\<open>null\<close>). A
  dictionary is the list of its items in insertion order; \<open>map_of\<close> looks a key up.
  A float is opaque to this program and carried as the literal it was read from.
  A \<open>string\<close> stands for a Python \<^verbatim>\<open>str\<close>, one \<open>char\<close> per character.
\<close>

datatype pyval =
    PNone
  | PBool bool
  | PInt int
  | PFloat string
  | PStr string
  | PList "pyval list"
  | PDict "(string \<times> pyval) list"

section \<open>Exceptions\<close>

text \<open>
  The record \<open>response\<close> is what the handlers and the body of \<^verbatim>\<open>query_model\<close> read of
  an \<^verbatim>\<open>httpx.Response\<close>: the status code, the decoded body \<^verbatim>\<open>.text\<close>
  (field \<open>body_text\<close>), and what
  \<^verbatim>\<open>.json()\<close> does: \<open>Inl msg\<close> when the body is not JSON (a \<^verbatim>\<open>JSONDecodeError\<close>
  whose text is \<open>msg\<close>), \<open>Inr v\<close> when it parses to \<open>v\<close>.
\<close>

record response =
  status_code :: nat
  body_text :: string
  json :: "string + pyval"

text \<open>
  \<open>exception\<close> are the instances of Python's \<^verbatim>\<open>Exception\<close>, split by the classes the
  \<^verbatim>\<open>except\<close> clauses of \<^verbatim>\<open>query_model\<close> tell apart. The three httpx classes are
  pairwise disjoint (\<^verbatim>\<open>ConnectTimeout\<close> is a \<^verbatim>\<open>TimeoutException\<close>, not a
  \<^verbatim>\<open>ConnectError\<close>). \<open>OtherException cls msg\<close> is an instance of any other subclass of
  \<^verbatim>\<open>Exception\<close>, with its class name and \<^verbatim>\<open>str(e)\<close>.

  \<open>base_exception\<close> are the instances of \<^verbatim>\<open>BaseException\<close>: an \<^verbatim>\<open>Exception\<close>, or one
  of the classes that derive from \<^verbatim>\<open>BaseException\<close> directly. Since Python 3.8
  \<^verbatim>\<open>asyncio.CancelledError\<close> is among the latter; it is raised at an \<^verbatim>\<open>await\<close> of a
  task that is being cancelled.
\<close>

datatype exception =
    ConnectError string
  | HTTPStatusError response
  | TimeoutException string
  | OtherException string string

datatype base_exception =
    Exception exception
  | CancelledError
  | KeyboardInterrupt
  | SystemExit
  | GeneratorExit

definition KeyError :: "string \<Rightarrow> exception" where
  "KeyError shown = OtherException ''KeyError'' shown"

definition IndexError :: "string \<Rightarrow> exception" where
  "IndexError msg = OtherException ''IndexError'' msg"

definition TypeError :: "string \<Rightarrow> exception" where
  "TypeError msg = OtherException ''TypeError'' msg"

definition AttributeError :: "string \<Rightarrow> exception" where
  "AttributeError msg = OtherException ''AttributeError'' msg"

definition JSONDecodeError :: "string \<Rightarrow> exception" where
  "JSONDecodeError msg = OtherException ''JSONDecodeError'' msg"

text \<open>\<^verbatim>\<open>repr\<close> of a string key, as \<^verbatim>\<open>str(KeyError(key))\<close> shows it.\<close>

definition quoted :: "string \<Rightarrow> string" where
  "quoted s = CHR 0x27 # s @ [CHR 0x27]"

section \<open>The content builder\<close>

text \<open>
  \<^verbatim>\<open>build_message_content(text, images=None)\<close>, lines 15-48. An image is a
  \<^verbatim>\<open>Dict[str, str]\<close>; \<^verbatim>\<open>image["content"]\<close> raises \<^verbatim>\<open>KeyError\<close> on a dictionary without
  that key. The loop appends one part per image to \<^verbatim>\<open>content\<close>, which starts as the
  one-element list holding the text part.
\<close>

fun append_images :: "(string \<times> string) list list \<Rightarrow> pyval list \<Rightarrow> exception + pyval list" where
  "append_images [] content = Inr content"
| "append_images (img # images) content =
     (case map_of img ''content'' of
        None \<Rightarrow> Inl (KeyError (quoted ''content''))
      | Some uri \<Rightarrow>
          append_images images
            (content @ [PDict [(''type'', PStr ''image_url''),
                               (''image_url'', PDict [(''url'', PStr uri)])]]))"

definition build_message_content ::
  "string \<Rightarrow> (string \<times> string) list list option \<Rightarrow> exception + pyval" where
  "build_message_content text images =
     (case images of
        None \<Rightarrow> Inr (PStr text)
      | Some [] \<Rightarrow> Inr (PStr text)
      | Some (img # rest) \<Rightarrow>
          (case append_images (img # rest) [PDict [(''type'', PStr ''text''), (''text'', PStr text)]] of
             Inl e \<Rightarrow> Inl e
           | Inr content \<Rightarrow> Inr (PList content)))"

text \<open>The two kinds of content part of the wire format, used to state the results.\<close>

definition text_part :: "string \<Rightarrow> pyval" where
  "text_part t = PDict [(''type'', PStr ''text''), (''text'', PStr t)]"

definition image_part :: "string \<Rightarrow> pyval" where
  "image_part uri = PDict [(''type'', PStr ''image_url''), (''image_url'', PDict [(''url'', PStr uri)])]"

text \<open>An image record in the sense of the docstring: a dictionary that has the key \<^verbatim>\<open>content\<close>.\<close>

definition has_content :: "(string \<times> string) list \<Rightarrow> bool" where
  "has_content img = (map_of img ''content'' \<noteq> None)"

definition content_of :: "(string \<times> string) list \<Rightarrow> string" where
  "content_of img = (case map_of img ''content'' of Some uri \<Rightarrow> uri | None \<Rightarrow> [])"

section \<open>Reading a parsed body\<close>

text \<open>
  The three operations \<^verbatim>\<open>query_model\<close> applies to the parsed body, with the exceptions
  Python raises from them: \<^verbatim>\<open>v[key]\<close> for a string key, \<^verbatim>\<open>v[0]\<close>, and
  \<^verbatim>\<open>v.get(key)\<close>. The message of a \<^verbatim>\<open>TypeError\<close> or \<^verbatim>\<open>AttributeError\<close> is CPython's;
  no property below depends on its wording.
\<close>

definition type_name :: "pyval \<Rightarrow> string" where
  "type_name v =
     (case v of
        PNone \<Rightarrow> ''NoneType''
      | PBool _ \<Rightarrow> ''bool''
      | PInt _ \<Rightarrow> ''int''
      | PFloat _ \<Rightarrow> ''float''
      | PStr _ \<Rightarrow> ''str''
      | PList _ \<Rightarrow> ''list''
      | PDict _ \<Rightarrow> ''dict'')"

definition not_subscriptable :: "pyval \<Rightarrow> exception" where
  "not_subscriptable v = TypeError (quoted (type_name v) @ '' object is not subscriptable'')"

definition getitem_key :: "pyval \<Rightarrow> string \<Rightarrow> exception + pyval" where
  "getitem_key v key =
     (case v of
        PDict items \<Rightarrow>
          (case map_of items key of
             Some x \<Rightarrow> Inr x
           | None \<Rightarrow> Inl (KeyError (quoted key)))
      | PList _ \<Rightarrow> Inl (TypeError ''list indices must be integers or slices, not str'')
      | PStr _ \<Rightarrow> Inl (TypeError ''string indices must be integers'')
      | _ \<Rightarrow> Inl (not_subscriptable v))"

definition getitem_0 :: "pyval \<Rightarrow> exception + pyval" where
  "getitem_0 v =
     (case v of
        PList [] \<Rightarrow> Inl (IndexError ''list index out of range'')
      | PList (x # _) \<Rightarrow> Inr x
      | PStr [] \<Rightarrow> Inl (IndexError ''string index out of range'')
      | PStr (c # _) \<Rightarrow> Inr (PStr [c])
      | PDict _ \<Rightarrow> Inl (KeyError ''0'')
      | _ \<Rightarrow> Inl (not_subscriptable v))"

definition dict_get :: "pyval \<Rightarrow> string \<Rightarrow> exception + pyval" where
  "dict_get v key =
     (case v of
        PDict items \<Rightarrow> Inr (case map_of items key of Some x \<Rightarrow> x | None \<Rightarrow> PNone)
      | _ \<Rightarrow> Inl (AttributeError (quoted (type_name v) @ '' object has no attribute '' @ quoted ''get'')))"

section \<open>The single-query executor\<close>

text \<open>
  \<^verbatim>\<open>LLAMACPP_HOST\<close> and \<^verbatim>\<open>DEFAULT_TIMEOUT\<close> are imported from \<^verbatim>\<open>.config\<close>, which is not
  among the sources: they are parameters. A timeout is a Python float; its type is the
  parameter \<open>'t\<close>, and \<open>str_timeout\<close> stands for the text an f-string shows for it.
  A request is what \<^verbatim>\<open>query_model\<close> hands to httpx: the client's timeout, the URL and
  the JSON payload.
\<close>

record 't config =
  LLAMACPP_HOST :: string
  DEFAULT_TIMEOUT :: 't

type_synonym 't request = "'t \<times> string \<times> pyval"

text \<open>Decimal text of a status code, as an f-string shows an \<^verbatim>\<open>int\<close>.\<close>

fun str_nat :: "nat \<Rightarrow> string" where
  "str_nat n =
     (if n < 10 then [char_of (48 + n)]
      else str_nat (n div 10) @ [char_of (48 + n mod 10)])"

declare str_nat.simps [simp del]

text \<open>
  \<^verbatim>\<open>Response.raise_for_status()\<close> of httpx: returns on a 2xx status and raises
  \<^verbatim>\<open>HTTPStatusError\<close>, which carries the response, on any other.
\<close>

definition is_success :: "response \<Rightarrow> bool" where
  "is_success r = (200 \<le> status_code r \<and> status_code r \<le> 299)"

definition raise_for_status :: "response \<Rightarrow> exception + response" where
  "raise_for_status r = (if is_success r then Inr r else Inl (HTTPStatusError r))"

text \<open>Lines 71-83: the default timeout, the URL and the payload.\<close>

definition request_of :: "'t config \<Rightarrow> string \<Rightarrow> pyval \<Rightarrow> 't option \<Rightarrow> 't request" where
  "request_of cfg model messages timeout =
     (let timeout = (case timeout of None \<Rightarrow> DEFAULT_TIMEOUT cfg | Some t \<Rightarrow> t);
          url = ''http://'' @ LLAMACPP_HOST cfg @ ''/v1/chat/completions'';
          payload = PDict [(''model'', PStr model), (''messages'', messages), (''stream'', PBool False)]
      in (timeout, url, payload))"

text \<open>Lines 91-99: what the \<^verbatim>\<open>try\<close> block does with the response once \<^verbatim>\<open>post\<close> has returned it.\<close>

definition response_result :: "response \<Rightarrow> exception + pyval" where
  "response_result response =
     (case raise_for_status response of
        Inl e \<Rightarrow> Inl e
      | Inr _ \<Rightarrow>
     (case json response of
        Inl msg \<Rightarrow> Inl (JSONDecodeError msg)
      | Inr data \<Rightarrow>
     (case getitem_key data ''choices'' of
        Inl e \<Rightarrow> Inl e
      | Inr choices \<Rightarrow>
     (case getitem_0 choices of
        Inl e \<Rightarrow> Inl e
      | Inr choice \<Rightarrow>
     (case getitem_key choice ''message'' of
        Inl e \<Rightarrow> Inl e
      | Inr message \<Rightarrow>
     (case dict_get message ''content'' of
        Inl e \<Rightarrow> Inl e
      | Inr content \<Rightarrow>
     (case dict_get message ''reasoning_details'' of
        Inl e \<Rightarrow> Inl e
      | Inr reasoning_details \<Rightarrow>
          Inr (PDict [(''content'', content), (''reasoning_details'', reasoning_details)]))))))))"

text \<open>
  Lines 101-128: the four \<^verbatim>\<open>except\<close> clauses, tried in order. An exception that is no
  instance of \<^verbatim>\<open>Exception\<close> matches none of them and leaves \<^verbatim>\<open>query_model\<close>.
\<close>

definition query_model_except :: "('t \<Rightarrow> string) \<Rightarrow> 't \<Rightarrow> base_exception \<Rightarrow> base_exception + pyval" where
  "query_model_except str_timeout timeout e =
     (case e of
        Exception (ConnectError _) \<Rightarrow>
          Inr (PDict [(''error'', PBool True),
                      (''error_type'', PStr ''connection''),
                      (''error_message'', PStr ''Cannot connect to llama.cpp server'')])
      | Exception (HTTPStatusError response) \<Rightarrow>
          Inr (PDict [(''error'', PBool True),
                      (''error_type'', PStr ''http''),
                      (''error_message'',
                       PStr (''HTTP '' @ str_nat (status_code response) @ '': ''
                             @ take 200 (body_text response)))])
      | Exception (TimeoutException _) \<Rightarrow>
          Inr (PDict [(''error'', PBool True),
                      (''error_type'', PStr ''timeout''),
                      (''error_message'',
                       PStr (''Request timed out after '' @ str_timeout timeout @ ''s''))])
      | Exception (OtherException _ msg) \<Rightarrow>
          Inr (PDict [(''error'', PBool True),
                      (''error_type'', PStr ''unknown''),
                      (''error_message'', PStr msg)])
      | _ \<Rightarrow> Inl e)"

text \<open>
  \<^verbatim>\<open>query_model(model, messages, timeout=None, stage=None)\<close>, lines 51-128. Lines 86-90,
  which open the scoped client and await \<^verbatim>\<open>client.post(url, json=payload)\<close>, are the
  parameter \<open>post\<close>: given the request and the state \<open>w\<close> of the world outside, it
  raises (\<open>Inl\<close>) or returns a response (\<open>Inr\<close>), and leaves a new state. Closing the
  client is taken to raise nothing. The result is \<open>Inl e\<close> when \<open>e\<close> leaves the function
  and \<open>Inr v\<close> when it returns \<open>v\<close>. The calls of the logger return nothing and are left
  out; \<open>stage\<close> is read by them alone.
\<close>

definition query_model ::
  "'t config \<Rightarrow> ('t \<Rightarrow> string) \<Rightarrow> ('t request \<Rightarrow> 'w \<Rightarrow> (base_exception + response) \<times> 'w) \<Rightarrow>
   string \<Rightarrow> pyval \<Rightarrow> 't option \<Rightarrow> string option \<Rightarrow> 'w \<Rightarrow> (base_exception + pyval) \<times> 'w" where
  "query_model cfg str_timeout post model messages timeout stage w =
     (let request = request_of cfg model messages timeout;
          timeout = fst request
      in case post request w of
           (Inl e, w') \<Rightarrow> (query_model_except str_timeout timeout e, w')
         | (Inr response, w') \<Rightarrow>
             (case response_result response of
                Inl e \<Rightarrow> (query_model_except str_timeout timeout (Exception e), w')
              | Inr result \<Rightarrow> (Inr result, w')))"

section \<open>Query results\<close>

text \<open>
  The two shapes of result of the specification's data model, and the dictionary that
  stands for each at the interface of \<^verbatim>\<open>query_model\<close>.
\<close>

datatype error_type = Connection | Http | Timeout | Unknown

datatype QueryResult = Success pyval pyval | Failure error_type string

definition error_type_name :: "error_type \<Rightarrow> string" where
  "error_type_name ty =
     (case ty of Connection \<Rightarrow> ''connection'' | Http \<Rightarrow> ''http'' | Timeout \<Rightarrow> ''timeout'' | Unknown \<Rightarrow> ''unknown'')"

definition to_dict :: "QueryResult \<Rightarrow> pyval" where
  "to_dict q =
     (case q of
        Success content reasoning_details \<Rightarrow>
          PDict [(''content'', content), (''reasoning_details'', reasoning_details)]
      | Failure ty msg \<Rightarrow>
          PDict [(''error'', PBool True), (''error_type'', PStr (error_type_name ty)), (''error_message'', PStr msg)])"

text \<open>\<^verbatim>\<open>isinstance(e, Exception)\<close>.\<close>

definition is_Exception :: "base_exception \<Rightarrow> bool" where
  "is_Exception e = (case e of Exception _ \<Rightarrow> True | _ \<Rightarrow> False)"

text \<open>\<^verbatim>\<open>key in v\<close> for a dictionary \<open>v\<close>.\<close>

definition has_key :: "pyval \<Rightarrow> string \<Rightarrow> bool" where
  "has_key v key = (case v of PDict items \<Rightarrow> map_of items key \<noteq> None | _ \<Rightarrow> False)"

text \<open>
  The response body the specification expects (section 6):
  \<^verbatim>\<open>{"choices": [{"message": {...}}, ...]}\<close>, a dictionary whose \<^verbatim>\<open>choices\<close> is a
  non-empty list, whose first element is a dictionary, whose \<^verbatim>\<open>message\<close> is a
  dictionary. \<open>expected_message\<close> follows these words and gives that message, or
  \<open>None\<close> for a body of another shape. \<open>optional_field\<close> reads a field that may be
  absent, as \<^verbatim>\<open>None\<close> then.
\<close>

definition expected_message :: "pyval \<Rightarrow> (string \<times> pyval) list option" where
  "expected_message data =
     (case data of
        PDict items \<Rightarrow>
          (case map_of items ''choices'' of
             Some (PList (PDict choice # _)) \<Rightarrow>
               (case map_of choice ''message'' of
                  Some (PDict message) \<Rightarrow> Some message
                | _ \<Rightarrow> None)
           | _ \<Rightarrow> None)
      | _ \<Rightarrow> None)"

definition optional_field :: "(string \<times> pyval) list \<Rightarrow> string \<Rightarrow> pyval" where
  "optional_field message key = (case map_of message key of Some v \<Rightarrow> v | None \<Rightarrow> PNone)"

section \<open>Example inputs\<close>

text \<open>
  A configuration, and the body of the specification's scenario
  \<^verbatim>\<open>{"choices":[{"message":{"content":"hello"}}]}\<close>, for the closed instances below.
\<close>

definition example_config :: "nat config" where
  "example_config = \<lparr>LLAMACPP_HOST = ''localhost:8080'', DEFAULT_TIMEOUT = 120\<rparr>"

definition example_body :: pyval where
  "example_body = PDict [(''choices'', PList [PDict [(''message'', PDict [(''content'', PStr ''hello'')])]])]"

section \<open>The network and the event loop\<close>

text \<open>
  The dispatchers run one \<^verbatim>\<open>query_model\<close> per element of \<^verbatim>\<open>models\<close>, as tasks of one
  asyncio event loop. What lies outside the program is a parameter:
  \<^item> \<open>reply net i\<close> is what the backend and httpx do with the request of the task at
    position \<open>i\<close> of the list: raise an exception of httpx (all are instances of
    \<^verbatim>\<open>Exception\<close>) or return a response;
  \<^item> \<open>finish net i\<close> is the time, on a logical clock, at which that task completes.

  The state \<open>world\<close> records the requests handed to httpx so far, in the order in which
  they were issued. The tasks share no other state, so running them one after the other,
  in the order in which the event loop starts them (their order in the list), gives the
  results and the requests of the concurrent run; the order in which they complete is
  given by \<open>finish\<close>. No task is cancelled by the dispatchers, and the models below are of
  runs in which nothing outside cancels them either.
\<close>

record 't world =
  sent :: "'t request list"

record 't network =
  reply :: "nat \<Rightarrow> 't request \<Rightarrow> exception + response"
  finish :: "nat \<Rightarrow> nat"

text \<open>The awaited \<^verbatim>\<open>client.post\<close> of a task: the request is issued, the backend replies.\<close>

definition client_post ::
  "('t request \<Rightarrow> exception + response) \<Rightarrow> 't request \<Rightarrow> 't world \<Rightarrow> (base_exception + response) \<times> 't world" where
  "client_post backend request w =
     ((case backend request of Inl e \<Rightarrow> Inl (Exception e) | Inr response \<Rightarrow> Inr response),
      w\<lparr>sent := sent w @ [request]\<rparr>)"

fun run_tasks :: "('w \<Rightarrow> 'a \<times> 'w) list \<Rightarrow> 'w \<Rightarrow> 'a list \<times> 'w" where
  "run_tasks [] w = ([], w)"
| "run_tasks (task # tasks) w =
     (case task w of
        (outcome, w') \<Rightarrow>
          (case run_tasks tasks w' of
             (outcomes, w'') \<Rightarrow> (outcome # outcomes, w'')))"

text \<open>
  \<^verbatim>\<open>await asyncio.gather(*tasks)\<close>: every task is run; the results come in the order of
  the arguments; an exception of a task is raised to the awaiter. With no argument the
  result is the empty list.
\<close>

fun results_of :: "(base_exception + 'a) list \<Rightarrow> base_exception + 'a list" where
  "results_of [] = Inr []"
| "results_of (Inl e # _) = Inl e"
| "results_of (Inr x # outcomes) =
     (case results_of outcomes of
        Inl e \<Rightarrow> Inl e
      | Inr xs \<Rightarrow> Inr (x # xs))"

definition gather :: "('w \<Rightarrow> (base_exception + 'a) \<times> 'w) list \<Rightarrow> 'w \<Rightarrow> (base_exception + 'a list) \<times> 'w" where
  "gather tasks w = (case run_tasks tasks w of (outcomes, w') \<Rightarrow> (results_of outcomes, w'))"

text \<open>
  A dictionary comprehension \<^verbatim>\<open>{key: v for key, v in pairs}\<close>: the pairs are stored
  one by one; storing under a key already present replaces its value and keeps its place.
\<close>

definition dict_comprehension :: "(string \<times> 'v) list \<Rightarrow> (string \<times> 'v) list" where
  "dict_comprehension pairs = fold (\<lambda>(key, v). AList.update key v) pairs []"

section \<open>The parallel batch dispatcher\<close>

text \<open>\<^verbatim>\<open>query_models_parallel(models, messages, stage=None)\<close>, lines 131-159.\<close>

definition query_models_parallel ::
  "'t config \<Rightarrow> ('t \<Rightarrow> string) \<Rightarrow> 't network \<Rightarrow> string list \<Rightarrow> pyval \<Rightarrow> string option \<Rightarrow>
   't world \<Rightarrow> (base_exception + (string \<times> pyval) list) \<times> 't world" where
  "query_models_parallel cfg str_timeout net models messages stage w =
     (let tasks = map (\<lambda>(i, model).
                    query_model cfg str_timeout (client_post (reply net i)) model messages None stage)
                  (enumerate 0 models)
      in case gather tasks w of
           (Inl e, w') \<Rightarrow> (Inl e, w')
         | (Inr responses, w') \<Rightarrow> (Inr (dict_comprehension (zip models responses)), w'))"

text \<open>
  What \<^verbatim>\<open>query_model\<close> gives in the task at position \<open>i\<close>, for the model \<open>model\<close>. The
  state of the world does not enter into it (lemma \<open>query_model_world_independent\<close>).
\<close>

definition task_result ::
  "'t config \<Rightarrow> ('t \<Rightarrow> string) \<Rightarrow> 't network \<Rightarrow> pyval \<Rightarrow> string option \<Rightarrow> nat \<Rightarrow> string \<Rightarrow>
   base_exception + pyval" where
  "task_result cfg str_timeout net messages stage i model =
     fst (query_model cfg str_timeout (client_post (reply net i)) model messages None stage \<lparr>sent = []\<rparr>)"

section \<open>The streaming completion dispatcher\<close>

text \<open>
  \<^verbatim>\<open>query_models_streaming(models, messages)\<close>, lines 162-200, is an \<^verbatim>\<open>async def\<close> whose
  body has a \<^verbatim>\<open>yield\<close>: an asynchronous generator function. Calling it runs none of its
  body; it returns a generator object, here \<open>Created models messages\<close>. The body runs when
  the consumer pulls, with \<^verbatim>\<open>__anext__\<close> (each round of an \<^verbatim>\<open>async for\<close>): the first
  pull runs it from its first line to the first \<^verbatim>\<open>yield\<close>, each later pull from one
  \<^verbatim>\<open>yield\<close> to the next, and the pull after the last item ends the iteration.

  \<open>Suspended pending\<close> is the generator stopped at its \<^verbatim>\<open>yield\<close>, with the outcomes of
  the tasks not yet yielded, in the order of their completion; \<open>Closed\<close> is the generator
  that has finished.
\<close>

datatype agen =
    Created "string list" pyval
  | Suspended "(base_exception + string \<times> pyval) list"
  | Closed

datatype 'a step = Yield 'a | StopAsyncIteration | Raise base_exception

definition query_models_streaming :: "string list \<Rightarrow> pyval \<Rightarrow> 't world \<Rightarrow> agen \<times> 't world" where
  "query_models_streaming models messages w = (Created models messages, w)"

text \<open>Lines 183-189: the task of one model.\<close>

definition query_with_name ::
  "'t config \<Rightarrow> ('t \<Rightarrow> string) \<Rightarrow> ('t request \<Rightarrow> 'w \<Rightarrow> (base_exception + response) \<times> 'w) \<Rightarrow>
   pyval \<Rightarrow> string \<Rightarrow> 'w \<Rightarrow> (base_exception + string \<times> pyval) \<times> 'w" where
  "query_with_name cfg str_timeout post messages model w =
     (case query_model cfg str_timeout post model messages None None w of
        (Inl e, w') \<Rightarrow> (Inl e, w')
      | (Inr response, w') \<Rightarrow> (Inr (model, response), w'))"

text \<open>
  \<^verbatim>\<open>asyncio.as_completed(tasks)\<close> hands the tasks out in the order in which they
  complete: the positions \<open>0, ..., n - 1\<close> sorted by the time of completion. Two tasks that
  complete at the same time come in the order of the list, which is one of the orders
  asyncio may choose.
\<close>

definition completion_order :: "(nat \<Rightarrow> nat) \<Rightarrow> nat \<Rightarrow> nat list" where
  "completion_order finish_time n = sort_key finish_time [0..<n]"

definition as_completed :: "(nat \<Rightarrow> nat) \<Rightarrow> 'a list \<Rightarrow> 'a list" where
  "as_completed finish_time tasks =
     map (\<lambda>i. tasks ! i) (completion_order finish_time (length tasks))"

text \<open>
  One round of the loop of lines 196-200, from the \<^verbatim>\<open>await coro\<close> to the \<^verbatim>\<open>yield\<close>: the
  iteration ends when no task is left, the exception of a task that raised is raised in
  the generator, and the result of a task that returned is yielded.
\<close>

fun resume :: "(base_exception + string \<times> pyval) list \<Rightarrow> (string \<times> pyval) step \<times> agen" where
  "resume [] = (StopAsyncIteration, Closed)"
| "resume (Inl e # _) = (Raise e, Closed)"
| "resume (Inr item # pending) = (Yield item, Suspended pending)"

text \<open>
  One pull of the consumer. On the generator just created the body starts: line 192
  creates all the tasks, whose requests are issued when the generator first awaits, and
  the loop waits for the first to complete.
\<close>

definition anext ::
  "'t config \<Rightarrow> ('t \<Rightarrow> string) \<Rightarrow> 't network \<Rightarrow> agen \<Rightarrow> 't world \<Rightarrow>
   ((string \<times> pyval) step \<times> agen) \<times> 't world" where
  "anext cfg str_timeout net g w =
     (case g of
        Created models messages \<Rightarrow>
          (let tasks = map (\<lambda>(i, model).
                         query_with_name cfg str_timeout (client_post (reply net i)) messages model)
                       (enumerate 0 models)
           in case run_tasks tasks w of
                (outcomes, w') \<Rightarrow> (resume (as_completed (finish net) outcomes), w'))
      | Suspended pending \<Rightarrow> (resume pending, w)
      | Closed \<Rightarrow> ((StopAsyncIteration, Closed), w))"

text \<open>
  A consumer that pulls until the iteration ends, as \<^verbatim>\<open>async for\<close> does: the items it
  receives, the exception that ended the iteration if one did, and the world it leaves.
  Every pull that yields leaves a smaller generator, so the consumer comes to an end.
\<close>

fun agen_size :: "agen \<Rightarrow> nat" where
  "agen_size (Created models _) = Suc (length models)"
| "agen_size (Suspended pending) = length pending"
| "agen_size Closed = 0"

lemma length_run_tasks: "length (fst (run_tasks tasks w)) = length tasks"
proof (induction tasks arbitrary: w)
  case Nil
  show ?case by simp
next
  case (Cons task tasks)
  obtain outcome w' where first: "task w = (outcome, w')"
    by (cases "task w")
  obtain outcomes w'' where others: "run_tasks tasks w' = (outcomes, w'')"
    by (cases "run_tasks tasks w'")
  from Cons.IH [of w'] others have "length outcomes = length tasks"
    by simp
  with first others show ?case by simp
qed

lemma length_completion_order: "length (completion_order finish_time n) = n"
  by (simp add: completion_order_def)

lemma length_as_completed: "length (as_completed finish_time tasks) = length tasks"
  by (simp add: as_completed_def length_completion_order)

lemma resume_Yield: "resume pending = (Yield item, g') \<Longrightarrow> agen_size g' < length pending"
  by (cases pending rule: resume.cases) auto

lemma anext_Yield_size:
  "anext cfg str_timeout net g w = ((Yield item, g'), w') \<Longrightarrow> agen_size g' < agen_size g"
proof (cases g)
  case (Created models messages)
  assume step: "anext cfg str_timeout net g w = ((Yield item, g'), w')"
  let ?tasks = "map (\<lambda>(i, model).
                         query_with_name cfg str_timeout (client_post (reply net i)) messages model)
                       (enumerate 0 models)"
  from step Created have "resume (as_completed (finish net) (fst (run_tasks ?tasks w))) = (Yield item, g')"
    by (simp add: anext_def Let_def split: prod.splits)
  from resume_Yield [OF this] Created show ?thesis
    by (simp add: length_as_completed length_run_tasks)
next
  case (Suspended pending)
  assume "anext cfg str_timeout net g w = ((Yield item, g'), w')"
  with Suspended show ?thesis
    by (auto simp: anext_def dest: resume_Yield)
next
  case Closed
  assume "anext cfg str_timeout net g w = ((Yield item, g'), w')"
  with Closed show ?thesis by (simp add: anext_def)
qed

function drain ::
  "'t config \<Rightarrow> ('t \<Rightarrow> string) \<Rightarrow> 't network \<Rightarrow> agen \<Rightarrow> 't world \<Rightarrow>
   ((string \<times> pyval) list \<times> base_exception option) \<times> 't world" where
  "drain cfg str_timeout net g w =
     (case anext cfg str_timeout net g w of
        ((Yield item, g'), w') \<Rightarrow>
          (case drain cfg str_timeout net g' w' of
             ((items, raised), w'') \<Rightarrow> ((item # items, raised), w''))
      | ((StopAsyncIteration, _), w') \<Rightarrow> (([], None), w')
      | ((Raise e, _), w') \<Rightarrow> (([], Some e), w'))"
  by pat_completeness auto
termination
  by (relation "measure (\<lambda>(cfg, str_timeout, net, g, w). agen_size g)")
     (auto dest: anext_Yield_size [OF sym])

declare drain.simps [simp del]

text \<open>\<^verbatim>\<open>async for item in query_models_streaming(models, messages)\<close>: the call, then the pulls.\<close>

definition consume ::
  "'t config \<Rightarrow> ('t \<Rightarrow> string) \<Rightarrow> 't network \<Rightarrow> string list \<Rightarrow> pyval \<Rightarrow> 't world \<Rightarrow>
   ((string \<times> pyval) list \<times> base_exception option) \<times> 't world" where
  "consume cfg str_timeout net models messages w =
     (case query_models_streaming models messages w of
        (g, w') \<Rightarrow> drain cfg str_timeout net g w')"

text \<open>
  The network of the specification's scenario, with the models in the order \<^verbatim>\<open>b\<close>,
  \<^verbatim>\<open>a\<close>: the backend of the first task times out, at time 120; every other answers
  \<open>example_body\<close> at time 1.
\<close>

definition example_network :: "nat network" where
  "example_network =
     \<lparr>reply = (\<lambda>i request.
         if i = 0 then Inl (TimeoutException ''read'')
         else Inr \<lparr>status_code = 200, body_text = [], json = Inr example_body\<rparr>),
      finish = (\<lambda>i. if i = 0 then 120 else 1)\<rparr>"

section \<open>Properties of the content builder\<close>

lemma append_images_ok:
  "list_all has_content images \<Longrightarrow>
   append_images images content = Inr (content @ map (\<lambda>img. image_part (content_of img)) images)"
  by (induction images arbitrary: content)
     (auto simp: has_content_def content_of_def image_part_def)

lemma append_images_KeyError:
  "\<not> list_all has_content images \<Longrightarrow>
   append_images images content = Inl (KeyError (quoted ''content''))"
  by (induction images arbitrary: content)
     (auto simp: has_content_def split: option.splits)

lemma append_images_cong:
  "map (\<lambda>img. map_of img ''content'') images = map (\<lambda>img. map_of img ''content'') images' \<Longrightarrow>
   append_images images content = append_images images' content"
proof (induction images arbitrary: images' content)
  case Nil
  then show ?case by simp
next
  case (Cons img images)
  then obtain img' rest where split: "images' = img' # rest"
    by (cases images') auto
  with Cons.prems have same: "map_of img ''content'' = map_of img' ''content''"
    and tail: "map (\<lambda>img. map_of img ''content'') images = map (\<lambda>img. map_of img ''content'') rest"
    by simp_all
  show ?case
    using Cons.IH [OF tail] same split by (simp split: option.splits)
qed

text \<open>Whether every image of an optional list of images is an image record.\<close>

definition image_records :: "(string \<times> string) list list option \<Rightarrow> bool" where
  "image_records images = (case images of None \<Rightarrow> True | Some imgs \<Rightarrow> list_all has_content imgs)"

text \<open>
  Claim C7. Without images (\<^verbatim>\<open>None\<close> or the empty list) the builder returns the text
  itself, as a plain string. With a non-empty list of image records it returns a list:
  first the text part \<^verbatim>\<open>{"type": "text", "text": text}\<close>, then one part
  \<^verbatim>\<open>{"type": "image_url", "image_url": {"url": image["content"]}}\<close> per image, in the
  order of the input. The output is determined by the \<^verbatim>\<open>content\<close> entries alone: two
  lists of images that agree on them (whatever their \<^verbatim>\<open>filename\<close> entries are) give
  the same output.
\<close>

theorem build_message_content_shape:
  "build_message_content text None = Inr (PStr text)
   \<and> build_message_content text (Some []) = Inr (PStr text)
   \<and> (imgs \<noteq> [] \<and> list_all has_content imgs \<longrightarrow>
        build_message_content text (Some imgs) =
          Inr (PList (text_part text # map (\<lambda>img. image_part (content_of img)) imgs)))
   \<and> (map (\<lambda>img. map_of img ''content'') imgs = map (\<lambda>img. map_of img ''content'') imgs' \<longrightarrow>
        build_message_content text (Some imgs) = build_message_content text (Some imgs'))"
proof (intro conjI impI)
  show "build_message_content text None = Inr (PStr text)"
    by (simp add: build_message_content_def)
  show "build_message_content text (Some []) = Inr (PStr text)"
    by (simp add: build_message_content_def)
next
  assume "imgs \<noteq> [] \<and> list_all has_content imgs"
  then obtain img rest where imgs: "imgs = img # rest" and ok: "list_all has_content (img # rest)"
    by (cases imgs) auto
  show "build_message_content text (Some imgs) =
          Inr (PList (text_part text # map (\<lambda>img. image_part (content_of img)) imgs))"
    unfolding imgs build_message_content_def
    by (simp only: append_images_ok [OF ok] text_part_def option.case list.case sum.case append_Cons append_Nil)
next
  assume same: "map (\<lambda>img. map_of img ''content'') imgs = map (\<lambda>img. map_of img ''content'') imgs'"
  then have "imgs = [] \<longleftrightarrow> imgs' = []"
    by (metis map_is_Nil_conv)
  then show "build_message_content text (Some imgs) = build_message_content text (Some imgs')"
    using append_images_cong [OF same]
    by (cases imgs; cases imgs') (simp_all add: build_message_content_def)
qed

theorem build_message_content_shape_witness:
  "build_message_content ''hi''
     (Some [[(''content'', ''data:a''), (''filename'', ''a.png'')],
            [(''filename'', ''b.png''), (''content'', ''data:b'')]])
   = Inr (PList [text_part ''hi'', image_part ''data:a'', image_part ''data:b''])
   \<and> build_message_content ''hi'' (Some [[(''content'', ''data:a''), (''filename'', ''a.png'')]])
     = build_message_content ''hi'' (Some [[(''content'', ''data:a''), (''filename'', ''z.jpg'')]])"
proof -
  have ordered: "build_message_content ''hi''
      (Some [[(''content'', ''data:a''), (''filename'', ''a.png'')],
             [(''filename'', ''b.png''), (''content'', ''data:b'')]])
    = Inr (PList [text_part ''hi'', image_part ''data:a'', image_part ''data:b''])"
    using build_message_content_shape
      [of "''hi''"
          "[[(''content'', ''data:a''), (''filename'', ''a.png'')],
            [(''filename'', ''b.png''), (''content'', ''data:b'')]]"]
    by (simp add: has_content_def content_of_def)
  have unnamed: "build_message_content ''hi'' (Some [[(''content'', ''data:a''), (''filename'', ''a.png'')]])
    = build_message_content ''hi'' (Some [[(''content'', ''data:a''), (''filename'', ''z.jpg'')]])"
    using build_message_content_shape
      [of "''hi''" "[[(''content'', ''data:a''), (''filename'', ''a.png'')]]"
          "[[(''content'', ''data:a''), (''filename'', ''z.jpg'')]]"]
    by simp
  from ordered unnamed show ?thesis by (rule conjI)
qed

text \<open>
  Claim C8. On every text and every optional list of image records the builder returns a
  value and raises nothing; the value is a string or a list of parts; and the result is a
  function of the two arguments: equal inputs give equal outputs.
\<close>

theorem build_message_content_total:
  "image_records images \<Longrightarrow>
   (\<exists>v. build_message_content text images = Inr v \<and> (v = PStr text \<or> (\<exists>parts. v = PList parts)))
   \<and> (\<forall>text' images'. text' = text \<and> images' = images \<longrightarrow>
         build_message_content text' images' = build_message_content text images)"
proof (intro conjI)
  assume records: "image_records images"
  show "\<exists>v. build_message_content text images = Inr v \<and> (v = PStr text \<or> (\<exists>parts. v = PList parts))"
  proof (cases images)
    case None
    then show ?thesis by (simp add: build_message_content_def)
  next
    case (Some imgs)
    with records have ok: "list_all has_content imgs"
      by (simp add: image_records_def)
    show ?thesis
    proof (cases imgs)
      case Nil
      with Some show ?thesis by (simp add: build_message_content_def)
    next
      case (Cons img rest)
      with ok have "list_all has_content (img # rest)" by simp
      from append_images_ok [OF this] Some Cons show ?thesis
        by (simp add: build_message_content_def)
    qed
  qed
  show "\<forall>text' images'. text' = text \<and> images' = images \<longrightarrow>
          build_message_content text' images' = build_message_content text images"
    by simp
qed

theorem build_message_content_total_witness:
  "image_records (Some [[(''content'', ''data:a''), (''filename'', ''a.png'')]])
   \<and> (\<exists>v. build_message_content ''hi'' (Some [[(''content'', ''data:a''), (''filename'', ''a.png'')]]) = Inr v)"
proof -
  have records: "image_records (Some [[(''content'', ''data:a''), (''filename'', ''a.png'')]])"
    by (simp add: image_records_def has_content_def)
  from build_message_content_total [OF records, of "''hi''"] records show ?thesis
    by blast
qed

section \<open>Properties of the single-query executor\<close>

lemma to_dict_inject: "to_dict q = to_dict q' \<Longrightarrow> q = q'"
  by (cases q; cases q') (auto simp: to_dict_def error_type_name_def split: error_type.splits)

lemma query_model_except_Exception:
  "query_model_except str_timeout t (Exception e) =
     Inr (to_dict (case e of
        ConnectError _ \<Rightarrow> Failure Connection ''Cannot connect to llama.cpp server''
      | HTTPStatusError r \<Rightarrow> Failure Http (''HTTP '' @ str_nat (status_code r) @ '': '' @ take 200 (body_text r))
      | TimeoutException _ \<Rightarrow> Failure Timeout (''Request timed out after '' @ str_timeout t @ ''s'')
      | OtherException _ msg \<Rightarrow> Failure Unknown msg))"
  by (cases e) (simp_all add: query_model_except_def to_dict_def error_type_name_def)

lemma query_model_except_escape:
  "\<not> is_Exception e \<Longrightarrow> query_model_except str_timeout t e = Inl e"
  by (cases e) (simp_all add: query_model_except_def is_Exception_def)

lemma getitem_key_error: "getitem_key v k = Inl e \<Longrightarrow> \<exists>cls msg. e = OtherException cls msg"
  by (auto simp: getitem_key_def KeyError_def TypeError_def not_subscriptable_def split: pyval.splits option.splits)

lemma getitem_0_error: "getitem_0 v = Inl e \<Longrightarrow> \<exists>cls msg. e = OtherException cls msg"
  by (auto simp: getitem_0_def KeyError_def IndexError_def TypeError_def not_subscriptable_def split: pyval.splits list.splits)

lemma dict_get_error: "dict_get v k = Inl e \<Longrightarrow> \<exists>cls msg. e = OtherException cls msg"
  by (auto simp: dict_get_def AttributeError_def split: pyval.splits)

lemma response_result_error:
  "response_result r = Inl e \<Longrightarrow>
     (\<not> is_success r \<and> e = HTTPStatusError r) \<or> (is_success r \<and> (\<exists>cls msg. e = OtherException cls msg))"
  unfolding response_result_def raise_for_status_def
  by (auto simp: JSONDecodeError_def split: if_splits sum.splits
      dest: getitem_key_error getitem_0_error dict_get_error)

lemma response_result_ok:
  "response_result r = Inr v \<Longrightarrow> \<exists>c d. v = to_dict (Success c d)"
  unfolding response_result_def
  by (auto simp: to_dict_def split: sum.splits)

lemma query_model_unfold:
  "fst (query_model cfg str_timeout post model messages timeout stage w) =
     (case fst (post (request_of cfg model messages timeout) w) of
        Inl e \<Rightarrow> query_model_except str_timeout (fst (request_of cfg model messages timeout)) e
      | Inr response \<Rightarrow>
          (case response_result response of
             Inl e \<Rightarrow> query_model_except str_timeout (fst (request_of cfg model messages timeout)) (Exception e)
           | Inr result \<Rightarrow> Inr result))"
  by (simp add: query_model_def Let_def split: prod.splits sum.splits)

lemma query_model_result_cases:
  "(\<exists>q. fst (query_model cfg str_timeout post model messages timeout stage w) = Inr (to_dict q))
   \<or> (\<exists>e. \<not> is_Exception e
          \<and> fst (post (request_of cfg model messages timeout) w) = Inl e
          \<and> fst (query_model cfg str_timeout post model messages timeout stage w) = Inl e)"
proof (cases "fst (post (request_of cfg model messages timeout) w)")
  case (Inl e)
  show ?thesis
  proof (cases e)
    case (Exception x)
    with Inl show ?thesis
      by (auto simp: query_model_unfold query_model_except_Exception)
  qed (use Inl in \<open>simp_all add: query_model_unfold query_model_except_escape is_Exception_def\<close>)
next
  case (Inr r)
  show ?thesis
  proof (cases "response_result r")
    case (Inl e)
    with Inr show ?thesis
      by (auto simp: query_model_unfold query_model_except_Exception)
  next
    case Inr2: (Inr v)
    with Inr response_result_ok [OF Inr2] show ?thesis
      by (auto simp: query_model_unfold)
  qed
qed


lemma expected_message_Some:
  "expected_message data = Some message \<Longrightarrow>
   \<exists>items choice rest. data = PDict items \<and> map_of items ''choices'' = Some (PList (PDict choice # rest))
      \<and> map_of choice ''message'' = Some (PDict message)"
  by (auto simp: expected_message_def split: pyval.splits option.splits list.splits)

lemma response_result_expected:
  assumes "is_success r" "json r = Inr data" "expected_message data = Some message"
  shows "response_result r = Inr (to_dict (Success (optional_field message ''content'')
                                                  (optional_field message ''reasoning_details'')))"
proof -
  from expected_message_Some [OF assms(3)] obtain items choice rest where
    "data = PDict items" "map_of items ''choices'' = Some (PList (PDict choice # rest))"
    "map_of choice ''message'' = Some (PDict message)" by blast
  with assms(1,2) show ?thesis
    by (simp add: response_result_def raise_for_status_def getitem_key_def getitem_0_def
        dict_get_def to_dict_def optional_field_def)
qed

lemma response_result_unexpected:
  assumes "is_success r" "json r = Inr data" "expected_message data = None"
  shows "\<exists>cls msg. response_result r = Inl (OtherException cls msg)"
proof (cases "response_result r")
  case (Inl e)
  with response_result_error [OF Inl] assms(1) show ?thesis by auto
next
  case (Inr v)
  with assms have False
    by (auto simp: response_result_def raise_for_status_def getitem_key_def getitem_0_def
        dict_get_def expected_message_def
        split: sum.splits pyval.splits option.splits list.splits if_splits)
  then show ?thesis ..
qed

lemma has_key_to_dict:
  "has_key (to_dict q) ''error'' \<longleftrightarrow> (\<exists>ty msg. q = Failure ty msg)"
  by (cases q) (simp_all add: has_key_def to_dict_def)

lemma error_flag_to_dict:
  "getitem_key (to_dict (Failure ty msg)) ''error'' = Inr (PBool True)"
  by (simp add: getitem_key_def to_dict_def)



text \<open>
  Claim C6. On a 2xx response whose body parses as JSON: when the body has the expected
  shape, the result is the success holding \<^verbatim>\<open>message.get('content')\<close> and
  \<^verbatim>\<open>message.get('reasoning_details')\<close>, each \<^verbatim>\<open>None\<close> when absent; when it has not,
  the result is a failure of kind unknown. The three cases the claim names are spelt
  out: no \<^verbatim>\<open>choices\<close>, an empty \<^verbatim>\<open>choices\<close> list, and a first choice without
  \<^verbatim>\<open>message\<close>.
\<close>

theorem query_model_parses_response:
  "let outcome = fst (post (request_of cfg model messages timeout) w);
       result = fst (query_model cfg str_timeout post model messages timeout stage w)
   in \<forall>r data. outcome = Inr r \<and> is_success r \<and> json r = Inr data \<longrightarrow>
        (case expected_message data of
           Some message \<Rightarrow>
             result = Inr (to_dict (Success (optional_field message ''content'')
                                            (optional_field message ''reasoning_details'')))
         | None \<Rightarrow> \<exists>msg. result = Inr (to_dict (Failure Unknown msg)))
        \<and> (\<forall>items. data = PDict items \<and> map_of items ''choices'' = None \<longrightarrow>
              result = Inr (to_dict (Failure Unknown (quoted ''choices''))))
        \<and> (\<forall>items. data = PDict items \<and> map_of items ''choices'' = Some (PList []) \<longrightarrow>
              result = Inr (to_dict (Failure Unknown ''list index out of range'')))
        \<and> (\<forall>items choice rest. data = PDict items
              \<and> map_of items ''choices'' = Some (PList (PDict choice # rest))
              \<and> map_of choice ''message'' = None \<longrightarrow>
              result = Inr (to_dict (Failure Unknown (quoted ''message''))))"
proof -
  let ?outcome = "fst (post (request_of cfg model messages timeout) w)"
  let ?result = "fst (query_model cfg str_timeout post model messages timeout stage w)"
  have raised: "?result = Inr (to_dict (Failure Unknown msg))"
    if "?outcome = Inr r" "response_result r = Inl (OtherException cls msg)" for r cls msg
    using that by (simp add: query_model_unfold query_model_except_Exception)
  have shape: "case expected_message data of
           Some message \<Rightarrow>
             ?result = Inr (to_dict (Success (optional_field message ''content'')
                                             (optional_field message ''reasoning_details'')))
         | None \<Rightarrow> \<exists>msg. ?result = Inr (to_dict (Failure Unknown msg))"
    if "?outcome = Inr r" "is_success r" "json r = Inr data" for r data
  proof (cases "expected_message data")
    case None
    from response_result_unexpected [OF that(2,3) None] raised [OF that(1)] None
    show ?thesis by auto
  next
    case (Some message)
    from response_result_expected [OF that(2,3) Some] that(1) Some
    show ?thesis by (simp add: query_model_unfold)
  qed
  have no_choices: "?result = Inr (to_dict (Failure Unknown (quoted ''choices'')))"
    if "?outcome = Inr r" "is_success r" "json r = Inr data"
       "data = PDict items" "map_of items ''choices'' = None" for r data items
  proof -
    from that have "response_result r = Inl (OtherException ''KeyError'' (quoted ''choices''))"
      by (simp add: response_result_def raise_for_status_def getitem_key_def KeyError_def)
    with raised [OF that(1)] show ?thesis by simp
  qed
  have empty_choices: "?result = Inr (to_dict (Failure Unknown ''list index out of range''))"
    if "?outcome = Inr r" "is_success r" "json r = Inr data"
       "data = PDict items" "map_of items ''choices'' = Some (PList [])" for r data items
  proof -
    from that have "response_result r = Inl (OtherException ''IndexError'' ''list index out of range'')"
      by (simp add: response_result_def raise_for_status_def getitem_key_def getitem_0_def IndexError_def)
    with raised [OF that(1)] show ?thesis by simp
  qed
  have no_message: "?result = Inr (to_dict (Failure Unknown (quoted ''message'')))"
    if "?outcome = Inr r" "is_success r" "json r = Inr data"
       "data = PDict items" "map_of items ''choices'' = Some (PList (PDict choice # rest))"
       "map_of choice ''message'' = None" for r data items choice rest
  proof -
    from that have "response_result r = Inl (OtherException ''KeyError'' (quoted ''message''))"
      by (simp add: response_result_def raise_for_status_def getitem_key_def getitem_0_def KeyError_def)
    with raised [OF that(1)] show ?thesis by simp
  qed
  show ?thesis
    unfolding Let_def
  proof (intro allI impI, elim conjE, intro conjI allI impI; (elim conjE)?)
    fix r data
    assume given: "?outcome = Inr r" "is_success r" "json r = Inr data"
    show "case expected_message data of
           Some message \<Rightarrow>
             ?result = Inr (to_dict (Success (optional_field message ''content'')
                                             (optional_field message ''reasoning_details'')))
         | None \<Rightarrow> \<exists>msg. ?result = Inr (to_dict (Failure Unknown msg))"
      by (rule shape [OF given])
  next
    fix r data items
    assume "?outcome = Inr r" "is_success r" "json r = Inr data"
      "data = PDict items" "map_of items ''choices'' = None"
    then show "?result = Inr (to_dict (Failure Unknown (quoted ''choices'')))"
      by (rule no_choices)
  next
    fix r data items
    assume "?outcome = Inr r" "is_success r" "json r = Inr data"
      "data = PDict items" "map_of items ''choices'' = Some (PList [])"
    then show "?result = Inr (to_dict (Failure Unknown ''list index out of range''))"
      by (rule empty_choices)
  next
    fix r data items choice rest
    assume "?outcome = Inr r" "is_success r" "json r = Inr data"
      "data = PDict items" "map_of items ''choices'' = Some (PList (PDict choice # rest))"
      "map_of choice ''message'' = None"
    then show "?result = Inr (to_dict (Failure Unknown (quoted ''message'')))"
      by (rule no_message)
  qed
qed

theorem query_model_parses_response_witness:
  "fst (query_model example_config str_nat
         (\<lambda>request w. (Inr \<lparr>status_code = 200, body_text = [], json = Inr example_body\<rparr>, w))
         ''a'' (PList []) None None ())
     = Inr (to_dict (Success (PStr ''hello'') PNone))
   \<and> fst (query_model example_config str_nat
         (\<lambda>request w. (Inr \<lparr>status_code = 200, body_text = [], json = Inr (PDict [(''choices'', PList [])])\<rparr>, w))
         ''a'' (PList []) None None ())
     = Inr (to_dict (Failure Unknown ''list index out of range''))"
proof (intro conjI)
  show "fst (query_model example_config str_nat
         (\<lambda>request w. (Inr \<lparr>status_code = 200, body_text = [], json = Inr example_body\<rparr>, w))
         ''a'' (PList []) None None ())
     = Inr (to_dict (Success (PStr ''hello'') PNone))"
    using query_model_parses_response
      [where post = "\<lambda>request w. (Inr \<lparr>status_code = 200, body_text = [], json = Inr example_body\<rparr>, w)"
         and cfg = example_config and str_timeout = str_nat and model = "''a''"
         and messages = "PList []" and timeout = None and stage = None and w = "()"]
    by (simp add: Let_def is_success_def example_body_def expected_message_def optional_field_def)
  show "fst (query_model example_config str_nat
         (\<lambda>request w. (Inr \<lparr>status_code = 200, body_text = [], json = Inr (PDict [(''choices'', PList [])])\<rparr>, w))
         ''a'' (PList []) None None ())
     = Inr (to_dict (Failure Unknown ''list index out of range''))"
    using query_model_parses_response
      [where post = "\<lambda>request w. (Inr \<lparr>status_code = 200, body_text = [], json = Inr (PDict [(''choices'', PList [])])\<rparr>, w)"
         and cfg = example_config and str_timeout = str_nat and model = "''a''"
         and messages = "PList []" and timeout = None and stage = None and w = "()"]
    by (simp add: Let_def is_success_def)
qed

text \<open>
  Claim C9. \<^verbatim>\<open>query_model\<close> never returns \<^verbatim>\<open>None\<close>. Whatever it returns is the
  dictionary of a query result; that of a failure has the key \<^verbatim>\<open>error\<close>, bound to
  \<^verbatim>\<open>True\<close>, and that of a success has no such key.
\<close>

theorem query_model_never_returns_None:
  "let result = fst (query_model cfg str_timeout post model messages timeout stage w)
   in result \<noteq> Inr PNone
      \<and> (\<forall>v. result = Inr v \<longrightarrow>
            (\<exists>q. v = to_dict q
               \<and> (case q of
                     Success _ _ \<Rightarrow> \<not> has_key v ''error''
                   | Failure _ _ \<Rightarrow> has_key v ''error'' \<and> getitem_key v ''error'' = Inr (PBool True))))"
proof -
  let ?result = "fst (query_model cfg str_timeout post model messages timeout stage w)"
  have dict: "\<exists>q. v = to_dict q" if "?result = Inr v" for v
    using that query_model_result_cases [of cfg str_timeout post model messages timeout stage w]
    by auto
  have not_None: "?result \<noteq> Inr PNone"
  proof
    assume "?result = Inr PNone"
    from dict [OF this] obtain q where "PNone = to_dict q" ..
    then show False by (cases q) (simp_all add: to_dict_def)
  qed
  have discriminated: "\<exists>q. v = to_dict q
       \<and> (case q of
             Success _ _ \<Rightarrow> \<not> has_key v ''error''
           | Failure _ _ \<Rightarrow> has_key v ''error'' \<and> getitem_key v ''error'' = Inr (PBool True))"
    if "?result = Inr v" for v
  proof -
    from dict [OF that] obtain q where q: "v = to_dict q" ..
    show ?thesis
      by (rule exI [of _ q], cases q) (simp_all add: q has_key_to_dict error_flag_to_dict)
  qed
  from not_None discriminated show ?thesis
    unfolding Let_def by blast
qed

theorem query_model_never_returns_None_witness:
  "fst (query_model example_config str_nat (\<lambda>request w. (Inl (Exception (ConnectError ''refused'')), w))
         ''a'' (PList []) None None ()) \<noteq> Inr PNone
   \<and> (\<exists>q. fst (query_model example_config str_nat (\<lambda>request w. (Inl (Exception (ConnectError ''refused'')), w))
                ''a'' (PList []) None None ()) = Inr (to_dict q)
          \<and> has_key (to_dict q) ''error'')
   \<and> (\<exists>q. fst (query_model example_config str_nat
                (\<lambda>request w. (Inr \<lparr>status_code = 200, body_text = [], json = Inr example_body\<rparr>, w))
                ''a'' (PList []) None None ()) = Inr (to_dict q)
          \<and> \<not> has_key (to_dict q) ''error'')"
proof -
  let ?refused = "\<lambda>(request :: nat request) (w :: unit). (Inl (Exception (ConnectError ''refused'')) :: base_exception + response, w)"
  let ?answered = "\<lambda>(request :: nat request) (w :: unit). (Inr \<lparr>status_code = 200, body_text = [], json = Inr example_body\<rparr> :: base_exception + response, w)"
  have failure: "fst (query_model example_config str_nat ?refused ''a'' (PList []) None None ())
      = Inr (to_dict (Failure Connection ''Cannot connect to llama.cpp server''))"
    by (simp add: query_model_unfold query_model_except_Exception)
  have success: "fst (query_model example_config str_nat ?answered ''a'' (PList []) None None ())
      = Inr (to_dict (Success (PStr ''hello'') PNone))"
    by (simp add: query_model_unfold response_result_def raise_for_status_def is_success_def
        example_body_def getitem_key_def getitem_0_def dict_get_def to_dict_def)
  note general = query_model_never_returns_None
    [where cfg = example_config and str_timeout = str_nat and model = "''a''"
       and messages = "PList []" and timeout = None and stage = None and w = "()"]
  from general [where post = ?refused] failure
  have "\<exists>q. to_dict (Failure Connection ''Cannot connect to llama.cpp server'') = to_dict q
            \<and> (case q of Success _ _ \<Rightarrow> \<not> has_key (to_dict q) ''error''
                 | Failure _ _ \<Rightarrow> has_key (to_dict q) ''error'' \<and> getitem_key (to_dict q) ''error'' = Inr (PBool True))"
    by (simp add: Let_def) metis
  then have flagged: "has_key (to_dict (Failure Connection ''Cannot connect to llama.cpp server'')) ''error''"
    by (auto dest!: to_dict_inject [OF sym])
  from general [where post = ?answered] success
  have "\<exists>q. to_dict (Success (PStr ''hello'') PNone) = to_dict q
            \<and> (case q of Success _ _ \<Rightarrow> \<not> has_key (to_dict q) ''error''
                 | Failure _ _ \<Rightarrow> has_key (to_dict q) ''error'' \<and> getitem_key (to_dict q) ''error'' = Inr (PBool True))"
    by (simp add: Let_def) metis
  then have plain: "\<not> has_key (to_dict (Success (PStr ''hello'') PNone)) ''error''"
    by (auto dest!: to_dict_inject [OF sym])
  from general [where post = ?refused]
  have "fst (query_model example_config str_nat ?refused ''a'' (PList []) None None ()) \<noteq> Inr PNone"
    by (simp add: Let_def)
  with failure success flagged plain show ?thesis
    by (simp only: simp_thms) blast
qed

section \<open>Properties of the dispatchers\<close>

lemma snd_query_model:
  "snd (query_model cfg str_timeout post model messages timeout stage w) =
     snd (post (request_of cfg model messages timeout) w)"
  by (simp add: query_model_def Let_def split: prod.splits sum.splits)

lemma fst_client_post:
  "fst (client_post backend request w) =
     (case backend request of Inl e \<Rightarrow> Inl (Exception e) | Inr response \<Rightarrow> Inr response)"
  by (simp add: client_post_def)

lemma snd_client_post: "snd (client_post backend request w) = w\<lparr>sent := sent w @ [request]\<rparr>"
  by (simp add: client_post_def)

lemma query_model_world_independent:
  "fst (query_model cfg str_timeout (client_post backend) model messages timeout stage w) =
   fst (query_model cfg str_timeout (client_post backend) model messages timeout stage w0)"
  by (simp add: query_model_unfold fst_client_post)

lemma query_model_client_post_result:
  "\<exists>q. fst (query_model cfg str_timeout (client_post backend) model messages timeout stage w) = Inr (to_dict q)"
  using query_model_result_cases [of cfg str_timeout "client_post backend" model messages timeout stage w]
  by (auto simp: fst_client_post is_Exception_def split: sum.splits)

lemma query_model_client_post:
  "query_model cfg str_timeout (client_post backend) model messages timeout stage w =
     (fst (query_model cfg str_timeout (client_post backend) model messages timeout stage w0),
      w\<lparr>sent := sent w @ [request_of cfg model messages timeout]\<rparr>)"
  using query_model_world_independent [of cfg str_timeout backend model messages timeout stage w w0]
    snd_query_model [of cfg str_timeout "client_post backend" model messages timeout stage w]
  by (simp add: snd_client_post prod_eq_iff)



lemma run_tasks_map:
  assumes "\<And>x w. x \<in> set xs \<Longrightarrow> task x w = (f x, w\<lparr>sent := sent w @ [g x]\<rparr>)"
  shows "run_tasks (map task xs) w = (map f xs, w\<lparr>sent := sent w @ map g xs\<rparr>)"
  using assms
proof (induction xs arbitrary: w)
  case Nil
  show ?case by simp
next
  case (Cons x xs)
  have first: "task x w = (f x, w\<lparr>sent := sent w @ [g x]\<rparr>)"
    by (rule Cons.prems) simp
  have others: "run_tasks (map task xs) (w\<lparr>sent := sent w @ [g x]\<rparr>) =
      (map f xs, w\<lparr>sent := sent w @ [g x]\<rparr>\<lparr>sent := sent (w\<lparr>sent := sent w @ [g x]\<rparr>) @ map g xs\<rparr>)"
    by (rule Cons.IH) (simp add: Cons.prems)
  from first others show ?case by simp
qed

lemma results_of_Inr: "results_of (map Inr xs) = Inr xs"
  by (induction xs) simp_all

lemma map_snd_enumerate': "map (\<lambda>(i, x). h x) (enumerate n xs) = map h xs"
  by (induction xs arbitrary: n) simp_all

lemma update_absent: "key \<notin> fst ` set al \<Longrightarrow> AList.update key v al = al @ [(key, v)]"
  by (induction al) auto

lemma fold_update_distinct:
  "distinct (map fst pairs) \<Longrightarrow> fst ` set pairs \<inter> fst ` set al = {} \<Longrightarrow>
   fold (\<lambda>(key, v). AList.update key v) pairs al = al @ pairs"
proof (induction pairs arbitrary: al)
  case Nil
  show ?case by simp
next
  case (Cons p pairs)
  obtain key v where p: "p = (key, v)" by (cases p)
  from Cons.prems p have absent: "key \<notin> fst ` set al" by auto
  from Cons.prems p have "fst ` set pairs \<inter> fst ` set (al @ [(key, v)]) = {}"
    by (auto simp: image_iff)
  with Cons.prems have "fold (\<lambda>(key, v). AList.update key v) pairs (al @ [(key, v)]) = (al @ [(key, v)]) @ pairs"
    by (intro Cons.IH) simp_all
  with absent p show ?case by (simp add: update_absent)
qed

lemma dict_comprehension_distinct:
  "distinct (map fst pairs) \<Longrightarrow> dict_comprehension pairs = pairs"
  using fold_update_distinct [of pairs "[]"] by (simp add: dict_comprehension_def)

lemma map_of_fold_update:
  "map_of (fold (\<lambda>(key, v). AList.update key v) pairs al) = map_of (rev pairs @ al)"
proof (induction pairs arbitrary: al)
  case Nil
  show ?case by simp
next
  case (Cons p pairs)
  obtain key v where p: "p = (key, v)" by (cases p)
  show ?case
    by (simp add: p Cons.IH update_conv' map_add_def fun_eq_iff split: option.splits)
qed

lemma map_of_dict_comprehension: "map_of (dict_comprehension pairs) = map_of (rev pairs)"
  by (simp add: dict_comprehension_def map_of_fold_update)

lemma distinct_fold_update:
  "distinct (map fst al) \<Longrightarrow> distinct (map fst (fold (\<lambda>(key, v). AList.update key v) pairs al))"
  by (induction pairs arbitrary: al) (auto simp: distinct_update)

lemma distinct_dict_comprehension: "distinct (map fst (dict_comprehension pairs))"
  by (simp add: dict_comprehension_def distinct_fold_update)

lemma keys_dict_comprehension: "set (map fst (dict_comprehension pairs)) = fst ` set pairs"
proof -
  have "dom (map_of (dict_comprehension pairs)) = dom (map_of (rev pairs))"
    by (simp add: map_of_dict_comprehension)
  then show ?thesis by (simp add: dom_map_of_conv_image_fst)
qed

lemma length_dict_comprehension: "length (dict_comprehension pairs) = card (fst ` set pairs)"
proof -
  have "length (dict_comprehension pairs) = length (map fst (dict_comprehension pairs))"
    by simp
  also have "\<dots> = card (set (map fst (dict_comprehension pairs)))"
    by (rule distinct_card [symmetric]) (rule distinct_dict_comprehension)
  finally show ?thesis by (simp only: keys_dict_comprehension)
qed

lemma map_of_rev_zip_last:
  "length vs = length ks \<Longrightarrow> i < length ks \<Longrightarrow>
   \<forall>j. i < j \<and> j < length ks \<longrightarrow> ks ! j \<noteq> ks ! i \<Longrightarrow>
   map_of (rev (zip ks vs)) (ks ! i) = Some (vs ! i)"
proof (induction ks arbitrary: vs rule: rev_induct)
  case Nil
  then show ?case by simp
next
  case (snoc k ks)
  from snoc.prems(1) obtain vs' v where vs: "vs = vs' @ [v]" and len: "length vs' = length ks"
    by (cases vs rule: rev_cases) auto
  show ?case
  proof (cases "i = length ks")
    case True
    with vs len show ?thesis by (simp add: nth_append)
  next
    case False
    with snoc.prems(2) have i: "i < length ks" by simp
    from snoc.prems(3) [rule_format, of "length ks"] i have differs: "k \<noteq> ks ! i"
      by (simp add: nth_append)
    have "\<forall>j. i < j \<and> j < length ks \<longrightarrow> ks ! j \<noteq> ks ! i"
    proof (intro allI impI)
      fix j assume j: "i < j \<and> j < length ks"
      with snoc.prems(3) [rule_format, of j] i show "ks ! j \<noteq> ks ! i"
        by (simp add: nth_append)
    qed
    from snoc.IH [OF len i this] differs i vs len show ?thesis
      by (simp add: nth_append)
  qed
qed

lemma task_result_dict: "\<exists>q. task_result cfg str_timeout net messages stage i model = Inr (to_dict q)"
  unfolding task_result_def by (rule query_model_client_post_result)

lemma query_task:
  "query_model cfg str_timeout (client_post (reply net i)) model messages None stage w =
     (task_result cfg str_timeout net messages stage i model,
      w\<lparr>sent := sent w @ [request_of cfg model messages None]\<rparr>)"
  unfolding task_result_def by (rule query_model_client_post)

lemma run_query_tasks:
  "run_tasks (map (\<lambda>(i, model).
                 query_model cfg str_timeout (client_post (reply net i)) model messages None stage)
               (enumerate n models)) w
   = (map (\<lambda>(i, model). task_result cfg str_timeout net messages stage i model) (enumerate n models),
      w\<lparr>sent := sent w @ map (\<lambda>model. request_of cfg model messages None) models\<rparr>)"
proof -
  have "run_tasks (map (\<lambda>(i, model).
                 query_model cfg str_timeout (client_post (reply net i)) model messages None stage)
               (enumerate n models)) w
   = (map (\<lambda>(i, model). task_result cfg str_timeout net messages stage i model) (enumerate n models),
      w\<lparr>sent := sent w @ map (\<lambda>(i, model). request_of cfg model messages None) (enumerate n models)\<rparr>)"
    by (rule run_tasks_map) (auto simp: query_task)
  then show ?thesis by (simp only: map_snd_enumerate')
qed

lemma responses_exist:
  "\<exists>responses. map (\<lambda>(i, model). task_result cfg str_timeout net messages stage i model) (enumerate n models)
       = map Inr responses"
proof (induction models arbitrary: n)
  case Nil
  show ?case by simp
next
  case (Cons model models)
  from Cons.IH [of "Suc n"] obtain responses where
    "map (\<lambda>(i, model). task_result cfg str_timeout net messages stage i model) (enumerate (Suc n) models)
       = map Inr responses" ..
  moreover from task_result_dict [of cfg str_timeout net messages stage n model]
  obtain q where "task_result cfg str_timeout net messages stage n model = Inr (to_dict q)" ..
  ultimately have "map (\<lambda>(i, model). task_result cfg str_timeout net messages stage i model)
        (enumerate n (model # models)) = map Inr (to_dict q # responses)"
    by simp
  then show ?case ..
qed

lemma query_models_parallel_eq:
  "\<exists>responses. length responses = length models
     \<and> (\<forall>i<length models. task_result cfg str_timeout net messages stage i (models ! i) = Inr (responses ! i))
     \<and> query_models_parallel cfg str_timeout net models messages stage w =
         (Inr (dict_comprehension (zip models responses)),
          w\<lparr>sent := sent w @ map (\<lambda>model. request_of cfg model messages None) models\<rparr>)"
proof -
  from responses_exist [of cfg str_timeout net messages stage 0 models] obtain responses where
    responses: "map (\<lambda>(i, model). task_result cfg str_timeout net messages stage i model) (enumerate 0 models)
       = map Inr responses" ..
  then have "length (map (\<lambda>(i, model). task_result cfg str_timeout net messages stage i model) (enumerate 0 models))
       = length (map Inr responses :: (base_exception + pyval) list)"
    by simp
  then have len: "length responses = length models" by simp
  have each: "task_result cfg str_timeout net messages stage i (models ! i) = Inr (responses ! i)"
    if "i < length models" for i
  proof -
    from that len have "map (\<lambda>(i, model). task_result cfg str_timeout net messages stage i model) (enumerate 0 models) ! i
       = (map Inr responses :: (base_exception + pyval) list) ! i"
      by (simp only: responses)
    with that len show ?thesis by (simp add: nth_enumerate_eq)
  qed
  have "query_models_parallel cfg str_timeout net models messages stage w =
         (Inr (dict_comprehension (zip models responses)),
          w\<lparr>sent := sent w @ map (\<lambda>model. request_of cfg model messages None) models\<rparr>)"
    by (simp add: query_models_parallel_def gather_def run_query_tasks responses results_of_Inr)
  with len each show ?thesis by blast
qed

lemma query_with_name_task:
  "query_with_name cfg str_timeout (client_post (reply net i)) messages model w =
     ((case task_result cfg str_timeout net messages None i model of
         Inl e \<Rightarrow> Inl e
       | Inr response \<Rightarrow> Inr (model, response)),
      w\<lparr>sent := sent w @ [request_of cfg model messages None]\<rparr>)"
  by (simp add: query_with_name_def query_task split: sum.splits)

lemma run_named_tasks:
  "run_tasks (map (\<lambda>(i, model).
                 query_with_name cfg str_timeout (client_post (reply net i)) messages model)
               (enumerate n models)) w
   = (map (\<lambda>(i, model). case task_result cfg str_timeout net messages None i model of
                            Inl e \<Rightarrow> Inl e
                          | Inr response \<Rightarrow> Inr (model, response)) (enumerate n models),
      w\<lparr>sent := sent w @ map (\<lambda>model. request_of cfg model messages None) models\<rparr>)"
proof -
  have "run_tasks (map (\<lambda>(i, model).
                 query_with_name cfg str_timeout (client_post (reply net i)) messages model)
               (enumerate n models)) w
   = (map (\<lambda>(i, model). case task_result cfg str_timeout net messages None i model of
                            Inl e \<Rightarrow> Inl e
                          | Inr response \<Rightarrow> Inr (model, response)) (enumerate n models),
      w\<lparr>sent := sent w @ map (\<lambda>(i, model). request_of cfg model messages None) (enumerate n models)\<rparr>)"
    by (rule run_tasks_map) (auto simp: query_with_name_task)
  then show ?thesis by (simp only: map_snd_enumerate')
qed

lemma named_responses:
  "map (\<lambda>(i, model). task_result cfg str_timeout net messages stage i model) (enumerate n models)
       = map Inr responses \<Longrightarrow>
   map (\<lambda>(i, model). case task_result cfg str_timeout net messages stage i model of
                            Inl e \<Rightarrow> Inl e
                          | Inr response \<Rightarrow> Inr (model, response)) (enumerate n models)
       = map Inr (zip models responses)"
proof (induction models arbitrary: n responses)
  case Nil
  show ?case by simp
next
  case (Cons model models)
  from Cons.prems obtain r rest where responses: "responses = r # rest"
    by (cases responses) auto
  with Cons.prems have first: "task_result cfg str_timeout net messages stage n model = Inr r"
    and others: "map (\<lambda>(i, model). task_result cfg str_timeout net messages stage i model) (enumerate (Suc n) models)
       = map Inr rest"
    by simp_all
  from Cons.IH [OF others] first responses show ?case by simp
qed

lemma set_completion_order: "set (completion_order finish_time n) = {0..<n}"
  by (simp add: completion_order_def)

lemma mset_completion_order: "mset (completion_order finish_time n) = mset [0..<n]"
  by (simp add: completion_order_def)

lemma sorted_completion_order: "sorted (map finish_time (completion_order finish_time n))"
  by (simp add: completion_order_def)

lemma as_completed_Inr:
  "as_completed finish_time (map Inr items) =
     map Inr (map (\<lambda>i. items ! i) (completion_order finish_time (length items)))"
  by (simp add: as_completed_def set_completion_order)

lemma drain_Suspended:
  "drain cfg str_timeout net (Suspended (map Inr items)) w = ((items, None), w)"
proof (induction items)
  case Nil
  show ?case by (subst drain.simps) (simp add: anext_def)
next
  case (Cons item items)
  have "anext cfg str_timeout net (Suspended (map Inr (item # items))) w =
      ((Yield item, Suspended (map Inr items)), w)"
    by (simp add: anext_def)
  with Cons.IH show ?case
    by (subst drain.simps) simp
qed

lemma anext_Created:
  "\<exists>responses. length responses = length models
     \<and> (\<forall>i<length models. task_result cfg str_timeout net messages None i (models ! i) = Inr (responses ! i))
     \<and> anext cfg str_timeout net (Created models messages) w =
         (resume (map Inr (map (\<lambda>i. zip models responses ! i) (completion_order (finish net) (length models)))),
          w\<lparr>sent := sent w @ map (\<lambda>model. request_of cfg model messages None) models\<rparr>)"
proof -
  from responses_exist [of cfg str_timeout net messages None 0 models] obtain responses where
    responses: "map (\<lambda>(i, model). task_result cfg str_timeout net messages None i model) (enumerate 0 models)
       = map Inr responses" ..
  then have "length (map (\<lambda>(i, model). task_result cfg str_timeout net messages None i model) (enumerate 0 models))
       = length (map Inr responses :: (base_exception + pyval) list)"
    by simp
  then have len: "length responses = length models" by simp
  have each: "task_result cfg str_timeout net messages None i (models ! i) = Inr (responses ! i)"
    if "i < length models" for i
  proof -
    from that len have "map (\<lambda>(i, model). task_result cfg str_timeout net messages None i model) (enumerate 0 models) ! i
       = (map Inr responses :: (base_exception + pyval) list) ! i"
      by (simp only: responses)
    with that len show ?thesis by (simp add: nth_enumerate_eq)
  qed
  have "anext cfg str_timeout net (Created models messages) w =
         (resume (map Inr (map (\<lambda>i. zip models responses ! i) (completion_order (finish net) (length models)))),
          w\<lparr>sent := sent w @ map (\<lambda>model. request_of cfg model messages None) models\<rparr>)"
    using len
    by (simp add: anext_def run_named_tasks named_responses [OF responses] as_completed_Inr)
  with len each show ?thesis by blast
qed

lemma drain_resume:
  assumes "anext cfg str_timeout net g w = (resume (map Inr items), w')"
  shows "drain cfg str_timeout net g w = ((items, None), w')"
proof (cases items)
  case Nil
  with assms show ?thesis
    by (subst drain.simps) simp
next
  case (Cons item rest)
  with assms have "anext cfg str_timeout net g w = ((Yield item, Suspended (map Inr rest)), w')"
    by simp
  then show ?thesis
    by (subst drain.simps) (simp add: drain_Suspended Cons)
qed

lemma consume_eq:
  "\<exists>responses. length responses = length models
     \<and> (\<forall>i<length models. task_result cfg str_timeout net messages None i (models ! i) = Inr (responses ! i))
     \<and> consume cfg str_timeout net models messages w =
         ((map (\<lambda>i. (models ! i, responses ! i)) (completion_order (finish net) (length models)), None),
          w\<lparr>sent := sent w @ map (\<lambda>model. request_of cfg model messages None) models\<rparr>)"
proof -
  from anext_Created [of models cfg str_timeout net messages w] obtain responses where
    len: "length responses = length models"
    and each: "\<forall>i<length models. task_result cfg str_timeout net messages None i (models ! i) = Inr (responses ! i)"
    and first: "anext cfg str_timeout net (Created models messages) w =
         (resume (map Inr (map (\<lambda>i. zip models responses ! i) (completion_order (finish net) (length models)))),
          w\<lparr>sent := sent w @ map (\<lambda>model. request_of cfg model messages None) models\<rparr>)"
    by blast
  have items: "map (\<lambda>i. zip models responses ! i) (completion_order (finish net) (length models))
      = map (\<lambda>i. (models ! i, responses ! i)) (completion_order (finish net) (length models))"
    using len by (simp add: set_completion_order)
  have "consume cfg str_timeout net models messages w =
         ((map (\<lambda>i. (models ! i, responses ! i)) (completion_order (finish net) (length models)), None),
          w\<lparr>sent := sent w @ map (\<lambda>model. request_of cfg model messages None) models\<rparr>)"
    using drain_resume [OF first]
    by (simp only: consume_def query_models_streaming_def prod.case items)
  with len each show ?thesis by blast
qed

text \<open>
  Claim C3. For a list of \<open>N\<close> distinct models the dispatcher returns a dictionary of
  \<open>N\<close> entries, one per model and in the order of the list; the entry of the model at
  position \<open>i\<close> is what \<^verbatim>\<open>query_model\<close> returned in its own task, the dictionary of a
  success or of a failure, never \<^verbatim>\<open>None\<close>; and one request per model was issued. For
  the empty list it returns the empty dictionary and leaves the world as it was: no
  request is issued.
\<close>

theorem query_models_parallel_complete:
  "(distinct models \<longrightarrow>
      (\<exists>d w'. query_models_parallel cfg str_timeout net models messages stage w = (Inr d, w')
         \<and> length d = length models
         \<and> map fst d = models
         \<and> (\<forall>i<length models. \<exists>q.
               task_result cfg str_timeout net messages stage i (models ! i) = Inr (to_dict q)
               \<and> d ! i = (models ! i, to_dict q)
               \<and> map_of d (models ! i) = Some (to_dict q))
         \<and> sent w' = sent w @ map (\<lambda>model. request_of cfg model messages None) models))
   \<and> query_models_parallel cfg str_timeout net [] messages stage w = (Inr [], w)"
proof (intro conjI impI)
  assume unique: "distinct models"
  from query_models_parallel_eq [of models cfg str_timeout net messages stage w]
  obtain responses where len: "length responses = length models"
    and each: "\<forall>i<length models. task_result cfg str_timeout net messages stage i (models ! i) = Inr (responses ! i)"
    and run: "query_models_parallel cfg str_timeout net models messages stage w =
         (Inr (dict_comprehension (zip models responses)),
          w\<lparr>sent := sent w @ map (\<lambda>model. request_of cfg model messages None) models\<rparr>)"
    by blast
  let ?d = "zip models responses"
  from unique len have d: "dict_comprehension ?d = ?d"
    by (intro dict_comprehension_distinct) simp
  have entry: "\<exists>q. task_result cfg str_timeout net messages stage i (models ! i) = Inr (to_dict q)
               \<and> ?d ! i = (models ! i, to_dict q)
               \<and> map_of ?d (models ! i) = Some (to_dict q)" if i: "i < length models" for i
  proof -
    from task_result_dict [of cfg str_timeout net messages stage i "models ! i"]
    obtain q where q: "task_result cfg str_timeout net messages stage i (models ! i) = Inr (to_dict q)" ..
    with each i have r: "responses ! i = to_dict q" by simp
    from unique len i have "map_of ?d (models ! i) = Some (responses ! i)"
      by (intro map_of_zip_nth) simp_all
    with q r i len show ?thesis by (intro exI [of _ q]) simp
  qed
  show "\<exists>d w'. query_models_parallel cfg str_timeout net models messages stage w = (Inr d, w')
         \<and> length d = length models
         \<and> map fst d = models
         \<and> (\<forall>i<length models. \<exists>q.
               task_result cfg str_timeout net messages stage i (models ! i) = Inr (to_dict q)
               \<and> d ! i = (models ! i, to_dict q)
               \<and> map_of d (models ! i) = Some (to_dict q))
         \<and> sent w' = sent w @ map (\<lambda>model. request_of cfg model messages None) models"
  proof (intro exI conjI)
    show "query_models_parallel cfg str_timeout net models messages stage w =
        (Inr ?d, w\<lparr>sent := sent w @ map (\<lambda>model. request_of cfg model messages None) models\<rparr>)"
      using run d by simp
    show "length ?d = length models" using len by simp
    show "map fst ?d = models" using len by simp
    show "\<forall>i<length models. \<exists>q.
               task_result cfg str_timeout net messages stage i (models ! i) = Inr (to_dict q)
               \<and> ?d ! i = (models ! i, to_dict q)
               \<and> map_of ?d (models ! i) = Some (to_dict q)"
      using entry by blast
    show "sent (w\<lparr>sent := sent w @ map (\<lambda>model. request_of cfg model messages None) models\<rparr>)
        = sent w @ map (\<lambda>model. request_of cfg model messages None) models"
      by simp
  qed
next
  show "query_models_parallel cfg str_timeout net [] messages stage w = (Inr [], w)"
    by (simp add: query_models_parallel_def gather_def dict_comprehension_def)
qed

theorem query_models_parallel_complete_witness:
  "distinct [''b'', ''a'']
   \<and> (\<exists>d w'. query_models_parallel example_config str_nat example_network [''b'', ''a''] (PList []) None \<lparr>sent = []\<rparr>
               = (Inr d, w')
         \<and> length d = 2 \<and> map fst d = [''b'', ''a''] \<and> length (sent w') = 2)"
proof -
  have unique: "distinct [''b'', ''a'']" by simp
  note query_models_parallel_complete
    [of "[''b'', ''a'']" example_config str_nat example_network "PList []" None "\<lparr>sent = []\<rparr>",
     THEN conjunct1, rule_format, OF unique]
  then obtain d w' where
    "query_models_parallel example_config str_nat example_network [''b'', ''a''] (PList []) None \<lparr>sent = []\<rparr>
       = (Inr d, w')"
    "length d = length [''b'', ''a'']" "map fst d = [''b'', ''a'']"
    "sent w' = sent \<lparr>sent = []\<rparr> @ map (\<lambda>model. request_of example_config model (PList []) None) [''b'', ''a'']"
    by (elim exE conjE)
  then have "query_models_parallel example_config str_nat example_network [''b'', ''a''] (PList []) None \<lparr>sent = []\<rparr>
       = (Inr d, w') \<and> length d = 2 \<and> map fst d = [''b'', ''a''] \<and> length (sent w') = 2"
    by simp
  then have "\<exists>d w'. query_models_parallel example_config str_nat example_network [''b'', ''a''] (PList []) None \<lparr>sent = []\<rparr>
       = (Inr d, w') \<and> length d = 2 \<and> map fst d = [''b'', ''a''] \<and> length (sent w') = 2"
    by iprover
  with unique show ?thesis by (rule conjI)
qed

lemma mset_map_completion_order:
  "mset (map (\<lambda>i. xs ! i) (completion_order finish_time (length xs))) = mset xs"
proof -
  have "mset (map (\<lambda>i. xs ! i) (completion_order finish_time (length xs)))
      = image_mset (\<lambda>i. xs ! i) (mset (completion_order finish_time (length xs)))"
    by simp
  also have "\<dots> = image_mset (\<lambda>i. xs ! i) (mset [0..<length xs])"
    by (simp only: mset_completion_order)
  also have "\<dots> = mset (map (\<lambda>i. xs ! i) [0..<length xs])"
    by simp
  also have "\<dots> = mset xs"
    by (simp only: map_nth)
  finally show ?thesis .
qed

lemma first_completed:
  assumes "i < n"
  shows "finish_time (completion_order finish_time n ! 0) \<le> finish_time i"
proof -
  let ?order = "completion_order finish_time n"
  from assms have "i \<in> set ?order" by (simp add: set_completion_order)
  then obtain k where k: "k < length ?order" "?order ! k = i"
    by (auto simp: in_set_conv_nth)
  from sorted_completion_order [of finish_time n] k(1)
  have "map finish_time ?order ! 0 \<le> map finish_time ?order ! k"
    by (intro sorted_nth_mono) simp_all
  moreover from k(1) have "0 < length ?order" by (cases ?order) simp_all
  ultimately show ?thesis using k by (simp add: nth_map)
qed

lemma card_set_less: "\<not> distinct xs \<Longrightarrow> card (set xs) < length xs"
  using card_length [of xs] card_distinct [of xs] by (cases "card (set xs) = length xs") simp_all

lemma example_order:
  "map (\<lambda>i. [''b'', ''a''] ! i) (completion_order (finish example_network) (length [''b'', ''a'']))
     = [''a'', ''b'']"
  by code_simp

lemma example_card: "card (set [''b'', ''a'', ''b'']) = 2"
  by (simp add: card_insert_if)

text \<open>
  Claim C4. A consumer that iterates over the stream of \<open>N\<close> distinct models receives
  exactly \<open>N\<close> items and no exception; the names of the items are the models, each
  exactly once; and the items come in the order of completion: the item at place \<open>k\<close> is
  the model and the result of the task that completed \<open>k\<close>-th, whatever its position in
  the list, so the times of completion of the items are ascending and the first item is
  of a task that no task completed before.
\<close>

theorem query_models_streaming_emits_each_once:
  "distinct models \<Longrightarrow>
   (\<exists>items w'. consume cfg str_timeout net models messages w = ((items, None), w')
      \<and> length items = length models
      \<and> distinct (map fst items)
      \<and> mset (map fst items) = mset models
      \<and> map fst items = map (\<lambda>i. models ! i) (completion_order (finish net) (length models))
      \<and> sorted (map (finish net) (completion_order (finish net) (length models)))
      \<and> (\<forall>i<length models.
            finish net (completion_order (finish net) (length models) ! 0) \<le> finish net i)
      \<and> (\<forall>k<length models. \<exists>q.
            task_result cfg str_timeout net messages None
              (completion_order (finish net) (length models) ! k)
              (models ! (completion_order (finish net) (length models) ! k)) = Inr (to_dict q)
            \<and> items ! k = (models ! (completion_order (finish net) (length models) ! k), to_dict q)))"
proof -
  assume unique: "distinct models"
  let ?order = "completion_order (finish net) (length models)"
  from consume_eq [of models cfg str_timeout net messages w] obtain responses where
    len: "length responses = length models"
    and each: "\<forall>i<length models. task_result cfg str_timeout net messages None i (models ! i) = Inr (responses ! i)"
    and run: "consume cfg str_timeout net models messages w =
         ((map (\<lambda>i. (models ! i, responses ! i)) ?order, None),
          w\<lparr>sent := sent w @ map (\<lambda>model. request_of cfg model messages None) models\<rparr>)"
    by blast
  let ?items = "map (\<lambda>i. (models ! i, responses ! i)) ?order"
  have names: "map fst ?items = map (\<lambda>i. models ! i) ?order"
    by simp
  have count: "length ?items = length models"
    by (simp add: length_completion_order)
  have perm: "mset (map fst ?items) = mset models"
    by (simp only: names mset_map_completion_order)
  from perm unique have once: "distinct (map fst ?items)"
    by (simp only: mset_eq_imp_distinct_iff [OF perm])
  have own: "\<exists>q. task_result cfg str_timeout net messages None (?order ! k) (models ! (?order ! k)) = Inr (to_dict q)
            \<and> ?items ! k = (models ! (?order ! k), to_dict q)" if k: "k < length models" for k
  proof -
    from k have "?order ! k \<in> set ?order"
      by (simp add: length_completion_order)
    then have i: "?order ! k < length models"
      by (simp add: set_completion_order)
    from task_result_dict [of cfg str_timeout net messages None "?order ! k" "models ! (?order ! k)"]
    obtain q where q: "task_result cfg str_timeout net messages None (?order ! k) (models ! (?order ! k)) = Inr (to_dict q)" ..
    with each i have "responses ! (?order ! k) = to_dict q" by simp
    with q k show ?thesis
      by (intro exI [of _ q]) (simp add: length_completion_order)
  qed
  show ?thesis
  proof (intro exI conjI)
    show "consume cfg str_timeout net models messages w =
        ((?items, None), w\<lparr>sent := sent w @ map (\<lambda>model. request_of cfg model messages None) models\<rparr>)"
      by (rule run)
    show "length ?items = length models" by (rule count)
    show "distinct (map fst ?items)" by (rule once)
    show "mset (map fst ?items) = mset models" by (rule perm)
    show "map fst ?items = map (\<lambda>i. models ! i) ?order" by (rule names)
    show "sorted (map (finish net) ?order)" by (rule sorted_completion_order)
    show "\<forall>i<length models. finish net (?order ! 0) \<le> finish net i"
      by (simp add: first_completed)
    show "\<forall>k<length models. \<exists>q.
            task_result cfg str_timeout net messages None (?order ! k) (models ! (?order ! k)) = Inr (to_dict q)
            \<and> ?items ! k = (models ! (?order ! k), to_dict q)"
      using own by blast
  qed
qed

theorem query_models_streaming_emits_each_once_witness:
  "distinct [''b'', ''a'']
   \<and> (\<exists>items w'. consume example_config str_nat example_network [''b'', ''a''] (PList []) \<lparr>sent = []\<rparr>
                     = ((items, None), w')
          \<and> length items = 2 \<and> map fst items = [''a'', ''b''])"
proof -
  have unique: "distinct [''b'', ''a'']" by simp
  from query_models_streaming_emits_each_once
    [of "[''b'', ''a'']" example_config str_nat example_network "PList []" "\<lparr>sent = []\<rparr>", OF unique]
  obtain items w' where
    "consume example_config str_nat example_network [''b'', ''a''] (PList []) \<lparr>sent = []\<rparr> = ((items, None), w')"
    "length items = length [''b'', ''a'']"
    "map fst items = map (\<lambda>i. [''b'', ''a''] ! i) (completion_order (finish example_network) (length [''b'', ''a'']))"
    by (elim exE conjE)
  then have "consume example_config str_nat example_network [''b'', ''a''] (PList []) \<lparr>sent = []\<rparr> = ((items, None), w')
      \<and> length items = 2 \<and> map fst items = [''a'', ''b'']"
    by (simp only: example_order) simp
  then have "\<exists>items w'. consume example_config str_nat example_network [''b'', ''a''] (PList []) \<lparr>sent = []\<rparr>
                     = ((items, None), w')
          \<and> length items = 2 \<and> map fst items = [''a'', ''b'']"
    by iprover
  with unique show ?thesis by (rule conjI)
qed

text \<open>
  Claim C5, as the code has it. The call of \<^verbatim>\<open>query_models_streaming\<close> only creates the
  generator: it issues no request and leaves the world as it was. The first pull of the
  consumer issues all the requests, one per model in the order of the list, before it
  yields the first item, and keeps the results of all \<open>N\<close> tasks for this and the later
  pulls; a later pull issues nothing.
\<close>

theorem query_models_streaming_dispatches_at_first_pull:
  "query_models_streaming models messages w = (Created models messages, w)
   \<and> sent (snd (anext cfg str_timeout net (Created models messages) w))
       = sent w @ map (\<lambda>model. request_of cfg model messages None) models
   \<and> (\<exists>items. length items = length models
         \<and> fst (anext cfg str_timeout net (Created models messages) w) = resume (map Inr items))
   \<and> snd (anext cfg str_timeout net (Suspended pending) w) = w
   \<and> snd (anext cfg str_timeout net Closed w) = w"
proof (intro conjI)
  show "query_models_streaming models messages w = (Created models messages, w)"
    by (simp add: query_models_streaming_def)
  from anext_Created [of models cfg str_timeout net messages w] obtain responses where
    first: "anext cfg str_timeout net (Created models messages) w =
         (resume (map Inr (map (\<lambda>i. zip models responses ! i) (completion_order (finish net) (length models)))),
          w\<lparr>sent := sent w @ map (\<lambda>model. request_of cfg model messages None) models\<rparr>)"
    by blast
  then show "sent (snd (anext cfg str_timeout net (Created models messages) w))
       = sent w @ map (\<lambda>model. request_of cfg model messages None) models"
    by simp
  let ?items = "map (\<lambda>i. zip models responses ! i) (completion_order (finish net) (length models))"
  have "length ?items = length models"
    by (simp add: length_completion_order)
  moreover from first have "fst (anext cfg str_timeout net (Created models messages) w) = resume (map Inr ?items)"
    by simp
  ultimately show "\<exists>items. length items = length models
         \<and> fst (anext cfg str_timeout net (Created models messages) w) = resume (map Inr items)"
    by blast
  show "snd (anext cfg str_timeout net (Suspended pending) w) = w"
    by (simp add: anext_def)
  show "snd (anext cfg str_timeout net Closed w) = w"
    by (simp add: anext_def)
qed

text \<open>
  The claim as stated, that the requests are started at call time, before the consumer
  pulls any item, fails: after the call for two models no request has been issued; both
  are issued by the first pull.
\<close>

theorem query_models_streaming_call_starts_nothing:
  "sent (snd (query_models_streaming [''a'', ''b''] (PList []) \<lparr>sent = ([] :: nat request list)\<rparr>)) = []
   \<and> sent (snd (anext example_config str_nat example_network
                   (fst (query_models_streaming [''a'', ''b''] (PList []) \<lparr>sent = ([] :: nat request list)\<rparr>))
                   (snd (query_models_streaming [''a'', ''b''] (PList []) \<lparr>sent = ([] :: nat request list)\<rparr>))))
       = [request_of example_config ''a'' (PList []) None, request_of example_config ''b'' (PList []) None]"
  by (simp add: query_models_streaming_def anext_def query_with_name_task)

text \<open>
  Claim C10. For any list of models, with or without repetitions: the batch dispatcher
  issues one request per element of the list, and its dictionary has one entry per
  distinct model, so fewer entries than the list has elements when a model is repeated;
  the entry of a model is the result of the task of its last occurrence. A consumer of
  the stream still receives one item per element of the list, each model as often as it
  occurs, and one request per element is issued.
\<close>

theorem duplicate_models:
  "(\<exists>d w'. query_models_parallel cfg str_timeout net models messages stage w = (Inr d, w')
      \<and> sent w' = sent w @ map (\<lambda>model. request_of cfg model messages None) models
      \<and> distinct (map fst d)
      \<and> set (map fst d) = set models
      \<and> length d = card (set models)
      \<and> (\<not> distinct models \<longrightarrow> length d < length models)
      \<and> (\<forall>i<length models. (\<forall>j. i < j \<and> j < length models \<longrightarrow> models ! j \<noteq> models ! i) \<longrightarrow>
           (\<exists>q. task_result cfg str_timeout net messages stage i (models ! i) = Inr (to_dict q)
               \<and> map_of d (models ! i) = Some (to_dict q))))
   \<and> (\<exists>items w'. consume cfg str_timeout net models messages w = ((items, None), w')
      \<and> sent w' = sent w @ map (\<lambda>model. request_of cfg model messages None) models
      \<and> length items = length models
      \<and> mset (map fst items) = mset models)"
proof (rule conjI)
  from query_models_parallel_eq [of models cfg str_timeout net messages stage w]
  obtain responses where len: "length responses = length models"
    and each: "\<forall>i<length models. task_result cfg str_timeout net messages stage i (models ! i) = Inr (responses ! i)"
    and run: "query_models_parallel cfg str_timeout net models messages stage w =
         (Inr (dict_comprehension (zip models responses)),
          w\<lparr>sent := sent w @ map (\<lambda>model. request_of cfg model messages None) models\<rparr>)"
    by blast
  let ?d = "dict_comprehension (zip models responses)"
  from len have keys: "fst ` set (zip models responses) = set models"
    by (metis map_fst_zip set_map)
  have names: "set (map fst ?d) = set models"
    by (simp only: keys_dict_comprehension keys)
  have size: "length ?d = card (set models)"
    by (simp only: length_dict_comprehension keys)
  have fewer: "length ?d < length models" if "\<not> distinct models"
    using card_set_less [OF that] by (simp only: size)
  have last: "\<exists>q. task_result cfg str_timeout net messages stage i (models ! i) = Inr (to_dict q)
               \<and> map_of ?d (models ! i) = Some (to_dict q)"
    if i: "i < length models" and later: "\<forall>j. i < j \<and> j < length models \<longrightarrow> models ! j \<noteq> models ! i" for i
  proof -
    from task_result_dict [of cfg str_timeout net messages stage i "models ! i"]
    obtain q where q: "task_result cfg str_timeout net messages stage i (models ! i) = Inr (to_dict q)" ..
    with each i have "responses ! i = to_dict q" by simp
    with map_of_rev_zip_last [OF len i later] q show ?thesis
      by (intro exI [of _ q]) (simp add: map_of_dict_comprehension)
  qed
  show "\<exists>d w'. query_models_parallel cfg str_timeout net models messages stage w = (Inr d, w')
      \<and> sent w' = sent w @ map (\<lambda>model. request_of cfg model messages None) models
      \<and> distinct (map fst d)
      \<and> set (map fst d) = set models
      \<and> length d = card (set models)
      \<and> (\<not> distinct models \<longrightarrow> length d < length models)
      \<and> (\<forall>i<length models. (\<forall>j. i < j \<and> j < length models \<longrightarrow> models ! j \<noteq> models ! i) \<longrightarrow>
           (\<exists>q. task_result cfg str_timeout net messages stage i (models ! i) = Inr (to_dict q)
               \<and> map_of d (models ! i) = Some (to_dict q)))"
  proof (intro exI conjI)
    show "query_models_parallel cfg str_timeout net models messages stage w =
        (Inr ?d, w\<lparr>sent := sent w @ map (\<lambda>model. request_of cfg model messages None) models\<rparr>)"
      by (rule run)
    show "sent (w\<lparr>sent := sent w @ map (\<lambda>model. request_of cfg model messages None) models\<rparr>)
        = sent w @ map (\<lambda>model. request_of cfg model messages None) models"
      by simp
    show "distinct (map fst ?d)" by (rule distinct_dict_comprehension)
    show "set (map fst ?d) = set models" by (rule names)
    show "length ?d = card (set models)" by (rule size)
    show "\<not> distinct models \<longrightarrow> length ?d < length models"
      using fewer by blast
    show "\<forall>i<length models. (\<forall>j. i < j \<and> j < length models \<longrightarrow> models ! j \<noteq> models ! i) \<longrightarrow>
           (\<exists>q. task_result cfg str_timeout net messages stage i (models ! i) = Inr (to_dict q)
               \<and> map_of ?d (models ! i) = Some (to_dict q))"
      using last by blast
  qed
next
  from consume_eq [of models cfg str_timeout net messages w] obtain responses where
    run: "consume cfg str_timeout net models messages w =
         ((map (\<lambda>i. (models ! i, responses ! i)) (completion_order (finish net) (length models)), None),
          w\<lparr>sent := sent w @ map (\<lambda>model. request_of cfg model messages None) models\<rparr>)"
    by blast
  let ?items = "map (\<lambda>i. (models ! i, responses ! i)) (completion_order (finish net) (length models))"
  have names: "map fst ?items = map (\<lambda>i. models ! i) (completion_order (finish net) (length models))"
    by simp
  show "\<exists>items w'. consume cfg str_timeout net models messages w = ((items, None), w')
      \<and> sent w' = sent w @ map (\<lambda>model. request_of cfg model messages None) models
      \<and> length items = length models
      \<and> mset (map fst items) = mset models"
  proof (intro exI conjI)
    show "consume cfg str_timeout net models messages w =
        ((?items, None), w\<lparr>sent := sent w @ map (\<lambda>model. request_of cfg model messages None) models\<rparr>)"
      by (rule run)
    show "sent (w\<lparr>sent := sent w @ map (\<lambda>model. request_of cfg model messages None) models\<rparr>)
        = sent w @ map (\<lambda>model. request_of cfg model messages None) models"
      by simp
    show "length ?items = length models"
      by (simp add: length_completion_order)
    show "mset (map fst ?items) = mset models"
      by (simp only: names mset_map_completion_order)
  qed
qed

theorem duplicate_models_witness:
  "\<not> distinct [''b'', ''a'', ''b'']
   \<and> (\<exists>d w'. query_models_parallel example_config str_nat example_network [''b'', ''a'', ''b''] (PList []) None
                 \<lparr>sent = []\<rparr> = (Inr d, w')
         \<and> length (sent w') = 3 \<and> length d = 2)
   \<and> (\<exists>items w'. consume example_config str_nat example_network [''b'', ''a'', ''b''] (PList [])
                 \<lparr>sent = []\<rparr> = ((items, None), w')
         \<and> length items = 3)"
proof -
  have repeated: "\<not> distinct [''b'', ''a'', ''b'']" by simp
  note both = duplicate_models
    [of example_config str_nat example_network "[''b'', ''a'', ''b'']" "PList []" None "\<lparr>sent = []\<rparr>"]
  from both [THEN conjunct1] obtain d w' where
    "query_models_parallel example_config str_nat example_network [''b'', ''a'', ''b''] (PList []) None
       \<lparr>sent = []\<rparr> = (Inr d, w')"
    "sent w' = sent \<lparr>sent = []\<rparr> @ map (\<lambda>model. request_of example_config model (PList []) None) [''b'', ''a'', ''b'']"
    "length d = card (set [''b'', ''a'', ''b''])"
    by (elim exE conjE)
  then have "query_models_parallel example_config str_nat example_network [''b'', ''a'', ''b''] (PList []) None
       \<lparr>sent = []\<rparr> = (Inr d, w') \<and> length (sent w') = 3 \<and> length d = 2"
    by (simp only: example_card) simp
  then have batch: "\<exists>d w'. query_models_parallel example_config str_nat example_network [''b'', ''a'', ''b''] (PList []) None
                 \<lparr>sent = []\<rparr> = (Inr d, w')
         \<and> length (sent w') = 3 \<and> length d = 2"
    by iprover
  from both [THEN conjunct2] obtain items w'' where
    "consume example_config str_nat example_network [''b'', ''a'', ''b''] (PList [])
       \<lparr>sent = []\<rparr> = ((items, None), w'')"
    "length items = length [''b'', ''a'', ''b'']"
    by (elim exE conjE)
  then have "consume example_config str_nat example_network [''b'', ''a'', ''b''] (PList [])
       \<lparr>sent = []\<rparr> = ((items, None), w'') \<and> length items = 3"
    by simp
  then have stream: "\<exists>items w'. consume example_config str_nat example_network [''b'', ''a'', ''b''] (PList [])
                 \<lparr>sent = []\<rparr> = ((items, None), w')
         \<and> length items = 3"
    by iprover
  from repeated batch stream show ?thesis by (intro conjI)
qed

end
